theory Spec2Isabelle
  imports Complex_Main "HOL-Library.AList" "HOL-Library.Sublist" "HOL-Library.Multiset"
begin

section \<open>Python values and strings\<close>

text \<open>
  The argument bag of a tool call is a Python \<^verbatim>\<open>dict\<close> decoded from JSON: its values are
  \<^verbatim>\<open>None\<close>, booleans, integers, floats, strings, lists and objects. Strings are lists of
  characters; the non-ASCII characters of the messages are written as their UTF-8 bytes.
\<close>

datatype pyval =
    PNone
  | PBool bool
  | PInt int
  | PFloat real
  | PStr string
  | PList "pyval list"
  | PDict "(string \<times> pyval) list"

type_synonym args = "string \<rightharpoonup> pyval"

text \<open>\<^verbatim>\<open>not v\<close> is \<open>\<not> truthy v\<close>.\<close>

fun truthy :: "pyval \<Rightarrow> bool" where
  "truthy PNone = False"
| "truthy (PBool b) = b"
| "truthy (PInt i) = (i \<noteq> 0)"
| "truthy (PFloat x) = (x \<noteq> 0)"
| "truthy (PStr s) = (s \<noteq> [])"
| "truthy (PList vs) = (vs \<noteq> [])"
| "truthy (PDict kvs) = (kvs \<noteq> [])"

text \<open>\<^verbatim>\<open>type(v).__name__\<close>, as it appears in the messages of TypeError and AttributeError.\<close>

fun type_name :: "pyval \<Rightarrow> string" where
  "type_name PNone = ''NoneType''"
| "type_name (PBool b) = ''bool''"
| "type_name (PInt i) = ''int''"
| "type_name (PFloat x) = ''float''"
| "type_name (PStr s) = ''str''"
| "type_name (PList vs) = ''list''"
| "type_name (PDict kvs) = ''dict''"

text \<open>\<^verbatim>\<open>args.get(k)\<close> and \<^verbatim>\<open>args.get(k, d)\<close>.\<close>

definition get :: "args \<Rightarrow> string \<Rightarrow> pyval" where
  "get a k = (case a k of None \<Rightarrow> PNone | Some v \<Rightarrow> v)"

definition get_default :: "args \<Rightarrow> string \<Rightarrow> pyval \<Rightarrow> pyval" where
  "get_default a k d = (case a k of None \<Rightarrow> d | Some v \<Rightarrow> v)"

text \<open>\<^verbatim>\<open>str(n)\<close> for a natural number: its decimal digits.\<close>

definition digit_char :: "nat \<Rightarrow> char" where
  "digit_char d = char_of (48 + d)"

fun str_nat :: "nat \<Rightarrow> string" where
  "str_nat n = (if n < 10 then [digit_char n] else str_nat (n div 10) @ [digit_char (n mod 10)])"

declare str_nat.simps [simp del]

text \<open>\<^verbatim>\<open>s.lower()\<close>, on ASCII letters.\<close>

definition lower_char :: "char \<Rightarrow> char" where
  "lower_char c =
     (let n = (of_char c :: nat) in if 65 \<le> n \<and> n \<le> 90 then char_of (n + 32) else c)"

definition lower :: "string \<Rightarrow> string" where
  "lower s = map lower_char s"

text \<open>\<^verbatim>\<open>sep.join(xs)\<close>.\<close>

fun join :: "string \<Rightarrow> string list \<Rightarrow> string" where
  "join sep [] = []"
| "join sep [x] = x"
| "join sep (x # y # xs) = x @ sep @ join sep (y # xs)"

text \<open>
  \<^verbatim>\<open>text.replace(old, new)\<close>: every occurrence of \<open>old\<close>, left to right and without
  overlap. With an empty \<open>old\<close> Python puts \<open>new\<close> before every character and at the end.
\<close>

function replace :: "string \<Rightarrow> string \<Rightarrow> string \<Rightarrow> string" where
  "replace old new s =
     (if old = [] then concat (map (\<lambda>c. new @ [c]) s) @ new
      else if s = [] then []
      else if prefix old s then new @ replace old new (drop (length old) s)
      else hd s # replace old new (tl s))"
  by pat_completeness auto
termination
  by (relation "measure (\<lambda>(old, new, s). length s)") auto

declare replace.simps [simp del]

text \<open>\<^verbatim>\<open>s.lstrip(".")\<close>.\<close>

definition lstrip_dot :: "string \<Rightarrow> string" where
  "lstrip_dot s = dropWhile (\<lambda>c. c = CHR ''.'') s"

text \<open>The line feed of the messages.\<close>

definition nl :: string where
  "nl = [CHR 0x0A]"

section \<open>Paths\<close>

text \<open>
  Every path the handlers use is absolute: it hangs off \<^verbatim>\<open>Path.home()\<close> or went through
  \<^verbatim>\<open>resolve()\<close>. An absolute POSIX path is the list of its components below the root.
  pathlib drops empty components and \<^verbatim>\<open>.\<close> when it parses a string. Symbolic links are
  not modelled, and \<^verbatim>\<open>..\<close> is interpreted by \<^verbatim>\<open>resolve()\<close> only.
\<close>

type_synonym path = "string list"

fun split_sep :: "string \<Rightarrow> string list" where
  "split_sep [] = [[]]"
| "split_sep (c # cs) =
     (if c = CHR ''/'' then [] # split_sep cs
      else (case split_sep cs of [] \<Rightarrow> [[c]] | w # ws \<Rightarrow> (c # w) # ws))"

definition components :: "string \<Rightarrow> string list" where
  "components s = filter (\<lambda>c. c \<noteq> [] \<and> c \<noteq> ''.'') (split_sep s)"

definition is_absolute :: "string \<Rightarrow> bool" where
  "is_absolute s = (case s of [] \<Rightarrow> False | c # cs \<Rightarrow> c = CHR ''/'')"

text \<open>\<^verbatim>\<open>base / s\<close> for a string \<open>s\<close>: an absolute \<open>s\<close> replaces the base.\<close>

definition joinpath :: "path \<Rightarrow> string \<Rightarrow> path" where
  "joinpath base s = (if is_absolute s then components s else base @ components s)"

text \<open>\<^verbatim>\<open>Path(s).resolve()\<close>: relative to the working directory, \<^verbatim>\<open>..\<close> removed.\<close>

fun normalise :: "path \<Rightarrow> string list \<Rightarrow> path" where
  "normalise acc [] = acc"
| "normalise acc (c # cs) = (if c = ''..'' then normalise (butlast acc) cs else normalise (acc @ [c]) cs)"

definition resolve :: "path \<Rightarrow> string \<Rightarrow> path" where
  "resolve cwd s = normalise [] (joinpath cwd s)"

text \<open>\<^verbatim>\<open>str(p)\<close>.\<close>

definition str_path :: "path \<Rightarrow> string" where
  "str_path p = (if p = [] then ''/'' else concat (map (\<lambda>c. CHR ''/'' # c) p))"

text \<open>\<^verbatim>\<open>p.name\<close>, \<^verbatim>\<open>p.suffix\<close> and \<^verbatim>\<open>p.stem\<close> (pathlib up to Python 3.13).\<close>

definition path_name :: "path \<Rightarrow> string" where
  "path_name p = (if p = [] then [] else last p)"

fun rfind :: "char \<Rightarrow> string \<Rightarrow> nat option" where
  "rfind c [] = None"
| "rfind c (x # xs) =
     (case rfind c xs of Some i \<Rightarrow> Some (Suc i) | None \<Rightarrow> if x = c then Some 0 else None)"

definition name_suffix :: "string \<Rightarrow> string" where
  "name_suffix name =
     (case rfind (CHR ''.'') name of
        None \<Rightarrow> []
      | Some i \<Rightarrow> if 0 < i \<and> i < length name - 1 then drop i name else [])"

definition name_stem :: "string \<Rightarrow> string" where
  "name_stem name =
     (case rfind (CHR ''.'') name of
        None \<Rightarrow> name
      | Some i \<Rightarrow> if 0 < i \<and> i < length name - 1 then take i name else name)"

definition path_suffix :: "path \<Rightarrow> string" where
  "path_suffix p = name_suffix (path_name p)"

definition path_stem :: "path \<Rightarrow> string" where
  "path_stem p = name_stem (path_name p)"

section \<open>Exceptions\<close>

text \<open>
  Every exception the handlers or the library calls under them raise is a subclass of
  \<^verbatim>\<open>Exception\<close>. The subclasses of \<^verbatim>\<open>OSError\<close> (FileNotFoundError, PermissionError,
  FileExistsError, NotADirectoryError, IsADirectoryError) are told apart by their errno;
  they carry the path of the failed call, and the target of a failed rename.
\<close>

datatype oskind = ENOENT | EACCES | EEXIST | ENOTDIR | EISDIR | EINVAL | ENOTEMPTY

datatype exn =
    ValueError string
  | TypeError string
  | AttributeError string
  | IndexError string
  | BadZipFile string
  | OSError oskind path "path option"

fun strerror :: "oskind \<Rightarrow> string" where
  "strerror ENOENT = ''[Errno 2] No such file or directory''"
| "strerror EACCES = ''[Errno 13] Permission denied''"
| "strerror EEXIST = ''[Errno 17] File exists''"
| "strerror ENOTDIR = ''[Errno 20] Not a directory''"
| "strerror EISDIR = ''[Errno 21] Is a directory''"
| "strerror EINVAL = ''[Errno 22] Invalid argument''"
| "strerror ENOTEMPTY = ''[Errno 39] Directory not empty''"

definition quoted :: "path \<Rightarrow> string" where
  "quoted p = [CHR 0x27] @ str_path p @ [CHR 0x27]"

text \<open>\<^verbatim>\<open>str(e)\<close>.\<close>

fun str_exn :: "exn \<Rightarrow> string" where
  "str_exn (ValueError m) = m"
| "str_exn (TypeError m) = m"
| "str_exn (AttributeError m) = m"
| "str_exn (IndexError m) = m"
| "str_exn (BadZipFile m) = m"
| "str_exn (OSError k p q) =
     strerror k @ '': '' @ quoted p @ (case q of None \<Rightarrow> [] | Some d \<Rightarrow> '' -> '' @ quoted d)"

section \<open>The file system\<close>

text \<open>
  A tree: a regular file has its modification time and its content, a directory lists
  its entries in the order in which the operating system enumerates them. The time
  \<open>None\<close> is a file whose \<^verbatim>\<open>stat()\<close> fails although \<^verbatim>\<open>is_file()\<close> saw it (the permission
  error or deletion race of the specification). Modification times are counted in the
  unit of \<^verbatim>\<open>datetime\<close>, where \<^verbatim>\<open>datetime.fromtimestamp\<close> is the identity; only their order
  is used. A file's content is either an archive (its size in bytes, and the members in
  the order of the central directory, a member whose name ends in \<^verbatim>\<open>/\<close> being a
  directory) or other bytes.
\<close>

record stat_result =
  st_size :: int
  st_mtime :: int

datatype content = Bytes string | Archive int "(string \<times> content) list"

fun content_size :: "content \<Rightarrow> int" where
  "content_size (Bytes b) = int (length b)"
| "content_size (Archive n ms) = n"

datatype node = File "int option" content | Dir "(string \<times> node) list"

fun lookup :: "node \<Rightarrow> path \<Rightarrow> node option" where
  "lookup n [] = Some n"
| "lookup (File t c) (x # p) = None"
| "lookup (Dir es) (x # p) = (case map_of es x of None \<Rightarrow> None | Some n \<Rightarrow> lookup n p)"

text \<open>\<^verbatim>\<open>p.exists()\<close>, \<^verbatim>\<open>p.is_file()\<close>, \<^verbatim>\<open>p.is_dir()\<close>.\<close>

definition path_exists :: "node \<Rightarrow> path \<Rightarrow> bool" where
  "path_exists fs p = (lookup fs p \<noteq> None)"

fun node_is_file :: "node \<Rightarrow> bool" where
  "node_is_file (File t c) = True"
| "node_is_file (Dir es) = False"

definition is_file :: "node \<Rightarrow> path \<Rightarrow> bool" where
  "is_file fs p = (case lookup fs p of Some n \<Rightarrow> node_is_file n | None \<Rightarrow> False)"

definition is_dir :: "node \<Rightarrow> path \<Rightarrow> bool" where
  "is_dir fs p = (case lookup fs p of Some n \<Rightarrow> \<not> node_is_file n | None \<Rightarrow> False)"

text \<open>
  \<^verbatim>\<open>p.iterdir()\<close>: each name once, with the node that \<open>lookup\<close> finds under it.
\<close>

definition iterdir :: "node \<Rightarrow> path \<Rightarrow> exn + (string \<times> node) list" where
  "iterdir fs p =
     (case lookup fs p of
        None \<Rightarrow> Inl (OSError ENOENT p None)
      | Some (File t c) \<Rightarrow> Inl (OSError ENOTDIR p None)
      | Some (Dir es) \<Rightarrow> Inr (AList.clearjunk es))"

text \<open>
  The entries of a listing that pass \<^verbatim>\<open>f.is_file()\<close>, each with its name and the outcome
  of a later \<^verbatim>\<open>f.stat()\<close>.
\<close>

fun file_entries :: "(string \<times> node) list \<Rightarrow> (string \<times> stat_result option) list" where
  "file_entries [] = []"
| "file_entries ((n, File t c) # es) =
     (n, map_option (\<lambda>t. \<lparr>st_size = content_size c, st_mtime = t\<rparr>) t) # file_entries es"
| "file_entries ((n, Dir ds) # es) = file_entries es"

definition stat :: "path \<Rightarrow> string \<times> stat_result option \<Rightarrow> exn + stat_result" where
  "stat d f = (case snd f of None \<Rightarrow> Inl (OSError EACCES (d @ [fst f]) None) | Some s \<Rightarrow> Inr s)"

text \<open>
  \<^verbatim>\<open>p.mkdir(parents=True, exist_ok=True)\<close>. \<open>mkdirs\<close> walks down the path and creates what
  is missing; it fails when it meets a regular file. \<^verbatim>\<open>os.mkdir\<close> then reports EEXIST if
  the path itself is that file and ENOTDIR if one of its parents is.
\<close>

fun mkdirs :: "node \<Rightarrow> path \<Rightarrow> node option" where
  "mkdirs (File t c) p = None"
| "mkdirs (Dir es) [] = Some (Dir es)"
| "mkdirs (Dir es) (x # p) =
     (case mkdirs (case map_of es x of None \<Rightarrow> Dir [] | Some n \<Rightarrow> n) p of
        None \<Rightarrow> None
      | Some n' \<Rightarrow> Some (Dir (AList.update x n' es)))"

definition mkdir :: "node \<Rightarrow> path \<Rightarrow> exn + node" where
  "mkdir fs p =
     (case mkdirs fs p of
        Some fs' \<Rightarrow> Inr fs'
      | None \<Rightarrow> Inl (OSError (if is_file fs p then EEXIST else ENOTDIR) p None))"

text \<open>
  Placing a node at a path whose parent is an existing directory, and taking the node
  at a path out of the tree.
\<close>

fun put :: "node \<Rightarrow> path \<Rightarrow> node \<Rightarrow> node option" where
  "put fs [] n = None"
| "put (File t c) (x # p) n = None"
| "put (Dir es) [x] n = Some (Dir (AList.update x n es))"
| "put (Dir es) (x # y # p) n =
     (case map_of es x of
        None \<Rightarrow> None
      | Some d \<Rightarrow> (case put d (y # p) n of None \<Rightarrow> None | Some d' \<Rightarrow> Some (Dir (AList.update x d' es))))"

fun remove :: "node \<Rightarrow> path \<Rightarrow> node option" where
  "remove fs [] = None"
| "remove (File t c) (x # p) = None"
| "remove (Dir es) [x] = (if map_of es x = None then None else Some (Dir (AList.delete x es)))"
| "remove (Dir es) (x # y # p) =
     (case map_of es x of
        None \<Rightarrow> None
      | Some d \<Rightarrow> (case remove d (y # p) of None \<Rightarrow> None | Some d' \<Rightarrow> Some (Dir (AList.update x d' es))))"

text \<open>
  \<^verbatim>\<open>src.rename(dst)\<close>, that is \<^verbatim>\<open>os.rename\<close> on POSIX: a regular file silently replaces an
  existing regular file at the target, which is why the handlers probe for a free name
  first. The handlers only rename regular files; the cases of a directory source are
  given for completeness.
\<close>

definition rename :: "node \<Rightarrow> path \<Rightarrow> path \<Rightarrow> exn + node" where
  "rename fs src dst =
     (case lookup fs src of
        None \<Rightarrow> Inl (OSError ENOENT src (Some dst))
      | Some n \<Rightarrow>
          (case lookup fs (butlast dst) of
             None \<Rightarrow> Inl (OSError ENOENT src (Some dst))
           | Some (File t c) \<Rightarrow> Inl (OSError ENOTDIR src (Some dst))
           | Some (Dir es) \<Rightarrow>
               if src = dst then Inr fs
               else if node_is_file n \<and> is_dir fs dst then Inl (OSError EISDIR src (Some dst))
               else if \<not> node_is_file n \<and> is_file fs dst then Inl (OSError ENOTDIR src (Some dst))
               else if \<not> node_is_file n \<and> prefix src dst then Inl (OSError EINVAL src (Some dst))
               else if \<not> node_is_file n \<and> (case lookup fs dst of Some (Dir (e # es')) \<Rightarrow> True | _ \<Rightarrow> False)
                 then Inl (OSError ENOTEMPTY src (Some dst))
               else (case remove fs src of
                       None \<Rightarrow> Inl (OSError EINVAL src (Some dst))
                     | Some fs1 \<Rightarrow>
                         (case put fs1 dst n of
                            None \<Rightarrow> Inl (OSError EINVAL src (Some dst))
                          | Some fs2 \<Rightarrow> Inr fs2))))"

text \<open>
  Writing a regular file, as \<^verbatim>\<open>open(p, "wb")\<close> followed by the copy does: the file is
  created or truncated; the parent has to be a directory and the path no directory.
\<close>

definition write_file :: "int \<Rightarrow> node \<Rightarrow> path \<Rightarrow> content \<Rightarrow> exn + node" where
  "write_file clock fs p c =
     (if is_dir fs p then Inl (OSError EISDIR p None)
      else if is_file fs (butlast p) then Inl (OSError ENOTDIR p None)
      else (case put fs p (File (Some clock) c) of
              None \<Rightarrow> Inl (OSError ENOENT p None)
            | Some fs' \<Rightarrow> Inr fs'))"

section \<open>Recursive search\<close>

text \<open>
  \<^verbatim>\<open>fnmatch\<close> on one path component, case-sensitive as on POSIX: \<^verbatim>\<open>*\<close> matches any run of
  characters, \<^verbatim>\<open>?\<close> any one character, every other character itself. Bracket
  expressions are not modelled.
\<close>

fun glob_match :: "string \<Rightarrow> string \<Rightarrow> bool" where
  "glob_match [] s = (s = [])"
| "glob_match (p # ps) s =
     (if p = CHR ''*'' then list_ex (\<lambda>k. glob_match ps (drop k s)) [0..<Suc (length s)]
      else (case s of [] \<Rightarrow> False | c # cs \<Rightarrow> (p = CHR ''?'' \<or> p = c) \<and> glob_match ps cs))"

text \<open>
  \<^verbatim>\<open>directory.rglob(pattern)\<close> for a pattern of one component: the directories below
  \<open>directory\<close> are visited parent first, and in each the entries whose name matches are
  yielded in the order of the listing.
\<close>

function rglob_node :: "(string \<Rightarrow> bool) \<Rightarrow> path \<Rightarrow> node \<Rightarrow> path list" where
  "rglob_node m d (File t c) = []"
| "rglob_node m d (Dir es) =
     map (\<lambda>e. d @ [fst e]) (filter (\<lambda>e. m (fst e)) (AList.clearjunk es)) @
     concat (map (\<lambda>e. rglob_node m (d @ [fst e]) (snd e)) (AList.clearjunk es))"
  by pat_completeness auto
termination
proof (relation "measure (\<lambda>(m, d, n). size n)")
  show "wf (measure (\<lambda>(m, d, n). size n))"
    by simp
next
  fix m :: "string \<Rightarrow> bool" and d :: path and es :: "(string \<times> node) list" and e
  assume e: "e \<in> set (AList.clearjunk es)"
  have sub: "set (AList.clearjunk al) \<subseteq> set al" for al :: "(string \<times> node) list"
  proof (induction al rule: AList.clearjunk.induct)
    case 1
    show ?case by simp
  next
    case (2 p ps)
    have "set (AList.delete (fst p) ps) \<subseteq> set ps"
      by (auto simp: AList.delete_eq)
    with 2 show ?case by auto
  qed
  from e sub have "e \<in> set es" by blast
  then have "size (snd e) < Suc (size_list (size_prod (\<lambda>x. 0) size) es)"
    by (induction es) (auto simp: less_Suc_eq_le)
  then show "((m, d @ [fst e], snd e), (m, d, Dir es)) \<in> measure (\<lambda>(m, d, n). size n)"
    by simp
qed

definition rglob :: "node \<Rightarrow> path \<Rightarrow> string \<Rightarrow> path list" where
  "rglob fs directory pattern =
     (case lookup fs directory of
        None \<Rightarrow> []
      | Some n \<Rightarrow> rglob_node (glob_match pattern) directory n)"

definition find_files :: "node \<Rightarrow> path \<Rightarrow> string \<Rightarrow> path list" where
  "find_files fs directory extension =
     filter (is_file fs) (rglob fs directory (CHR ''*'' # extension))"

section \<open>Archives\<close>

text \<open>
  \<^verbatim>\<open>zipfile.ZipFile(p, "r")\<close>: a file that is no archive raises BadZipFile.
\<close>

definition zipfile_open :: "node \<Rightarrow> path \<Rightarrow> exn + (string \<times> content) list" where
  "zipfile_open fs p =
     (case lookup fs p of
        None \<Rightarrow> Inl (OSError ENOENT p None)
      | Some (Dir es) \<Rightarrow> Inl (OSError EISDIR p None)
      | Some (File t (Bytes b)) \<Rightarrow> Inl (BadZipFile ''File is not a zip file'')
      | Some (File t (Archive n ms)) \<Rightarrow> Inr ms)"

text \<open>
  \<^verbatim>\<open>ZipFile.extractall\<close> extracts the members in order. For each, zipfile drops the empty,
  \<^verbatim>\<open>.\<close> and \<^verbatim>\<open>..\<close> components of the member's name, creates the missing directories above
  the target, and then makes the directory or writes the file. What was extracted
  before a failing member stays.
\<close>

definition member_parts :: "string \<Rightarrow> string list" where
  "member_parts name = filter (\<lambda>x. x \<noteq> [] \<and> x \<noteq> ''.'' \<and> x \<noteq> ''..'') (split_sep name)"

definition member_is_dir :: "string \<Rightarrow> bool" where
  "member_is_dir name = (name \<noteq> [] \<and> last name = CHR ''/'')"

text \<open>\<^verbatim>\<open>os.makedirs(p)\<close> and \<^verbatim>\<open>os.mkdir(p)\<close>, called on a path that does not exist or is no directory.\<close>

definition first_missing :: "node \<Rightarrow> path \<Rightarrow> path" where
  "first_missing fs p =
     (case filter (\<lambda>q. \<not> path_exists fs q) (prefixes p) of [] \<Rightarrow> p | q # qs \<Rightarrow> q)"

definition makedirs :: "node \<Rightarrow> path \<Rightarrow> exn + node" where
  "makedirs fs p =
     (case mkdirs fs p of
        Some fs' \<Rightarrow> Inr fs'
      | None \<Rightarrow> Inl (OSError ENOTDIR (first_missing fs p) None))"

definition os_mkdir :: "node \<Rightarrow> path \<Rightarrow> exn + node" where
  "os_mkdir fs p =
     (if path_exists fs p then Inl (OSError EEXIST p None)
      else if is_file fs (butlast p) then Inl (OSError ENOTDIR p None)
      else (case put fs p (Dir []) of
              None \<Rightarrow> Inl (OSError ENOENT p None)
            | Some fs' \<Rightarrow> Inr fs'))"

definition extract_member :: "int \<Rightarrow> node \<Rightarrow> path \<Rightarrow> string \<times> content \<Rightarrow> node \<times> exn option" where
  "extract_member clock fs target m =
     (let parts = member_parts (fst m);
          targetpath = target @ parts;
          upperdirs = (if parts = [] then target else butlast targetpath)
      in case (if path_exists fs upperdirs then Inr fs else makedirs fs upperdirs) of
           Inl e \<Rightarrow> (fs, Some e)
         | Inr fs1 \<Rightarrow>
             (case (if member_is_dir (fst m)
                    then (if is_dir fs1 targetpath then Inr fs1 else os_mkdir fs1 targetpath)
                    else write_file clock fs1 targetpath (snd m)) of
                Inl e \<Rightarrow> (fs1, Some e)
              | Inr fs2 \<Rightarrow> (fs2, None)))"

fun extractall :: "int \<Rightarrow> node \<Rightarrow> path \<Rightarrow> (string \<times> content) list \<Rightarrow> node \<times> exn option" where
  "extractall clock fs target [] = (fs, None)"
| "extractall clock fs target (m # ms) =
     (case extract_member clock fs target m of
        (fs', Some e) \<Rightarrow> (fs', Some e)
      | (fs', None) \<Rightarrow> extractall clock fs' target ms)"

section \<open>The server\<close>

text \<open>
  The environment of the process: the home directory under which \<^verbatim>\<open>DOWNLOADS_DIR\<close> and
  \<^verbatim>\<open>DOCUMENTS_DIR\<close> lie, the working directory that \<^verbatim>\<open>resolve()\<close> uses, the clock that
  stamps written files, and \<^verbatim>\<open>strftime("%m/%d/%Y, %I:%M %p")\<close> in the local time zone.
\<close>

record env =
  home :: path
  cwd :: path
  clock :: int
  strftime :: "int \<Rightarrow> string"

definition DOWNLOADS_DIR :: "env \<Rightarrow> path" where
  "DOWNLOADS_DIR env = home env @ [''Downloads'']"

definition DOCUMENTS_DIR :: "env \<Rightarrow> path" where
  "DOCUMENTS_DIR env = home env @ [''Documents'']"

datatype TextContent = TextContent string string

fun content_text :: "TextContent \<Rightarrow> string" where
  "content_text (TextContent ty t) = t"

type_synonym 'a outcome = "node \<times> (exn + 'a)"

text \<open>\<^verbatim>\<open>base / v\<close> and \<^verbatim>\<open>Path(v).resolve()\<close> for an argument value, and \<^verbatim>\<open>d / c\<close> for a name
  \<open>c\<close> taken from a path (one component, or empty).\<close>

definition truediv :: "path \<Rightarrow> pyval \<Rightarrow> exn + path" where
  "truediv base v =
     (case v of
        PStr s \<Rightarrow> Inr (joinpath base s)
      | _ \<Rightarrow> Inl (TypeError (''unsupported operand type(s) for /: '' @ [CHR 0x27] @ ''PosixPath''
                 @ [CHR 0x27] @ '' and '' @ [CHR 0x27] @ type_name v @ [CHR 0x27])))"

definition Path_resolve :: "env \<Rightarrow> pyval \<Rightarrow> exn + path" where
  "Path_resolve env v =
     (case v of
        PStr s \<Rightarrow> Inr (resolve (cwd env) s)
      | _ \<Rightarrow> Inl (TypeError (''expected str, bytes or os.PathLike object, not '' @ type_name v)))"

definition child :: "path \<Rightarrow> string \<Rightarrow> path" where
  "child d c = (if c = [] then d else d @ [c])"

text \<open>The string of an argument value that went through a path join (a \<^verbatim>\<open>str\<close>).\<close>

definition the_str :: "pyval \<Rightarrow> string" where
  "the_str v = (case v of PStr s \<Rightarrow> s | _ \<Rightarrow> [])"

text \<open>\<^verbatim>\<open>v.lower()\<close> for an argument value.\<close>

definition lower_method :: "pyval \<Rightarrow> exn + string" where
  "lower_method v =
     (case v of
        PStr s \<Rightarrow> Inr (lower s)
      | _ \<Rightarrow> Inl (AttributeError ([CHR 0x27] @ type_name v @ [CHR 0x27]
                 @ '' object has no attribute '' @ [CHR 0x27] @ ''lower'' @ [CHR 0x27])))"

subsection \<open>Extracting an archive\<close>

text \<open>Lines 188 to 197 of \<^verbatim>\<open>handle_unzip\<close>: where to extract.\<close>

definition destination_dir :: "env \<Rightarrow> args \<Rightarrow> exn + path" where
  "destination_dir env a =
     (case a ''destination'' of
        None \<Rightarrow> Inr (DOWNLOADS_DIR env)
      | Some v \<Rightarrow>
          (case lower_method v of
             Inl e \<Rightarrow> Inl e
           | Inr dest \<Rightarrow>
               if dest = ''downloads'' then Inr (DOWNLOADS_DIR env)
               else if dest = ''documents'' then Inr (DOCUMENTS_DIR env)
               else Path_resolve env v))"

text \<open>
  The three statements that \<^verbatim>\<open>handle_unzip\<close> (lines 201 to 205) and
  \<^verbatim>\<open>handle_unzip_and_move_svgs\<close> (lines 345 to 349) share: create the extraction
  directory, open the archive, extract everything; the result is \<^verbatim>\<open>namelist()\<close>.
\<close>

definition extract_zip :: "env \<Rightarrow> node \<Rightarrow> path \<Rightarrow> path \<Rightarrow> string list outcome" where
  "extract_zip env fs zip_path extract_path =
     (case mkdir fs extract_path of
        Inl e \<Rightarrow> (fs, Inl e)
      | Inr fs1 \<Rightarrow>
          (case zipfile_open fs1 zip_path of
             Inl e \<Rightarrow> (fs1, Inl e)
           | Inr members \<Rightarrow>
               (case extractall (clock env) fs1 extract_path members of
                  (fs2, Some e) \<Rightarrow> (fs2, Inl e)
                | (fs2, None) \<Rightarrow> (fs2, Inr (map fst members)))))"

definition handle_unzip :: "env \<Rightarrow> args \<Rightarrow> node \<Rightarrow> TextContent list outcome" where
  "handle_unzip env a fs =
     (let filename = get a ''filename'' in
      if \<not> truthy filename then (fs, Inl (ValueError ''filename is required''))
      else
        (case truediv (DOWNLOADS_DIR env) filename of
           Inl e \<Rightarrow> (fs, Inl e)
         | Inr zip_path \<Rightarrow>
             if \<not> path_exists fs zip_path
             then (fs, Inl (ValueError (''Zip file not found: '' @ the_str filename)))
             else
               (case destination_dir env a of
                  Inl e \<Rightarrow> (fs, Inl e)
                | Inr dest_dir \<Rightarrow>
                    let extract_path = child dest_dir (path_stem zip_path) in
                    (case extract_zip env fs zip_path extract_path of
                       (fs', Inl e) \<Rightarrow> (fs', Inl e)
                     | (fs', Inr file_list) \<Rightarrow>
                         (fs', Inr [TextContent ''text''
                            (''Successfully unzipped '' @ the_str filename
                             @ '' to '' @ str_path extract_path @ nl @ nl
                             @ ''Extracted '' @ str_nat (length file_list) @ '' files:'' @ nl
                             @ join nl file_list)])))))"

subsection \<open>Relocating files\<close>

text \<open>
  The loop of lines 243 to 249 (and 373 to 379): the candidate starts as the file's own
  name in the destination; while it exists, the next candidate is the stem, an
  underscore, the counter and the suffix. The directory has finitely many entries and
  the candidates are pairwise different, which is why the loop ends.
\<close>

function probe :: "node \<Rightarrow> path \<Rightarrow> string \<Rightarrow> string \<Rightarrow> path \<Rightarrow> nat \<Rightarrow> path" where
  "probe fs dest_dir stem sfx final_dest_path counter =
     (if path_exists fs final_dest_path
      then probe fs dest_dir stem sfx
             (child dest_dir (stem @ ''_'' @ str_nat counter @ sfx)) (counter + 1)
      else final_dest_path)"
  by pat_completeness auto
termination
proof -
  have digit_inj: "digit_char a = digit_char b \<Longrightarrow> a = b" if "a < 10" "b < 10" for a b
    using that by (simp add: digit_char_def)
  have len: "n < 10 \<longleftrightarrow> length (str_nat n) = 1" for n
  proof (cases "n < 10")
    case True
    then show ?thesis by (simp add: str_nat.simps [of n])
  next
    case False
    have "str_nat m \<noteq> []" for m
      by (subst str_nat.simps) simp
    with False show ?thesis
      by (simp add: str_nat.simps [of n])
  qed
  have str_inj: "str_nat a = str_nat b \<Longrightarrow> a = b" for a b
  proof (induction a arbitrary: b rule: str_nat.induct)
    case (1 a)
    show ?case
    proof (cases "a < 10")
      case True
      with "1.prems" len [of a] len [of b] have "b < 10" by simp
      with True "1.prems" show ?thesis
        by (simp add: str_nat.simps [of a] str_nat.simps [of b] digit_inj)
    next
      case False
      with "1.prems" len [of a] len [of b] have b: "\<not> b < 10" by simp
      from False b "1.prems"
      have "str_nat (a div 10) = str_nat (b div 10)" and "digit_char (a mod 10) = digit_char (b mod 10)"
        by (simp_all add: str_nat.simps [of a] str_nat.simps [of b])
      with "1.IH" [OF False] have "a div 10 = b div 10" and "a mod 10 = b mod 10"
        by (simp_all add: digit_inj)
      then show ?thesis
        by (metis div_mult_mod_eq)
    qed
  qed
  have look: "lookup n (p @ [x]) \<noteq> None \<Longrightarrow> \<exists>es. lookup n p = Some (Dir es) \<and> x \<in> fst ` set es"
    for n p x
  proof (induction n p rule: lookup.induct)
    case (1 n)
    then show ?case
      by (cases n) (auto split: option.splits dest: map_of_SomeD intro: rev_image_eqI)
  next
    case (2 t c y p)
    then show ?case by simp
  next
    case (3 es y p)
    then show ?case by (auto split: option.splits)
  qed
  have fin: "finite {x. path_exists fs (d @ [x])}" for fs d
  proof -
    have "{x. path_exists fs (d @ [x])} \<subseteq> (case lookup fs d of Some (Dir es) \<Rightarrow> fst ` set es | _ \<Rightarrow> {})"
    proof
      fix x
      assume "x \<in> {x. path_exists fs (d @ [x])}"
      then have "lookup fs (d @ [x]) \<noteq> None"
        by (simp add: path_exists_def)
      then obtain es where "lookup fs d = Some (Dir es)" and "x \<in> fst ` set es"
        using look by blast
      then show "x \<in> (case lookup fs d of Some (Dir es) \<Rightarrow> fst ` set es | _ \<Rightarrow> {})"
        by simp
    qed
    moreover have "finite (case lookup fs d of Some (Dir es) \<Rightarrow> fst ` set es | _ \<Rightarrow> {})"
      by (simp split: option.split node.split)
    ultimately show ?thesis
      by (rule finite_subset)
  qed
  have finE: "finite {k. path_exists fs (child d (stem @ ''_'' @ str_nat k @ sfx))}"
    for fs d stem sfx
  proof -
    have "inj (\<lambda>k. stem @ ''_'' @ str_nat k @ sfx)"
      by (auto simp: inj_def dest: str_inj)
    then have "finite ((\<lambda>k. stem @ ''_'' @ str_nat k @ sfx) -` {x. path_exists fs (d @ [x])})"
      using fin [of fs d] by (rule finite_vimageI [rotated])
    then show ?thesis
      by (simp add: vimage_def child_def)
  qed
  show ?thesis
  proof (relation "measure (\<lambda>(fs, d, stem, sfx, final, counter).
            card {k. counter \<le> k \<and> path_exists fs (child d (stem @ ''_'' @ str_nat k @ sfx))}
            + (if path_exists fs final then 1 else 0))")
    show "wf (measure (\<lambda>(fs, d, stem, sfx, final, counter).
            card {k. counter \<le> k \<and> path_exists fs (child d (stem @ ''_'' @ str_nat k @ sfx))}
            + (if path_exists fs final then 1 else 0)))"
      by simp
  next
    fix fs :: node and d :: path and stem sfx :: string and final :: path and counter :: nat
    assume ex: "path_exists fs final"
    let ?E = "\<lambda>k. path_exists fs (child d (stem @ ''_'' @ str_nat k @ sfx))"
    have f1: "finite {k. counter \<le> k \<and> ?E k}"
      by (rule finite_subset [OF _ finE [of fs d stem sfx]]) auto
    have f2: "finite {k. counter + 1 \<le> k \<and> ?E k}"
      by (rule finite_subset [OF _ finE [of fs d stem sfx]]) auto
    have "card {k. counter + 1 \<le> k \<and> ?E k} + (if ?E counter then 1 else 0)
          = card {k. counter \<le> k \<and> ?E k}"
    proof (cases "?E counter")
      case True
      then have "{k. counter \<le> k \<and> ?E k} = insert counter {k. counter + 1 \<le> k \<and> ?E k}"
        by (auto simp: le_eq_less_or_eq)
      with True f2 show ?thesis by simp
    next
      case False
      then have "{k. counter \<le> k \<and> ?E k} = {k. counter + 1 \<le> k \<and> ?E k}"
        by (auto simp: le_eq_less_or_eq Suc_le_eq)
      with False show ?thesis by simp
    qed
    with ex show "((fs, d, stem, sfx, child d (stem @ ''_'' @ str_nat counter @ sfx), counter + 1),
           (fs, d, stem, sfx, final, counter))
          \<in> measure (\<lambda>(fs, d, stem, sfx, final, counter).
            card {k. counter \<le> k \<and> path_exists fs (child d (stem @ ''_'' @ str_nat k @ sfx))}
            + (if path_exists fs final then 1 else 0))"
      by simp
  qed
qed

declare probe.simps [simp del]

text \<open>
  The body of the \<^verbatim>\<open>for\<close> loop. Lines 239 to 249: the name that the loop settles on,
  with the counter starting at 1. Lines 251 and 252: rename, and report the final name.
\<close>

definition free_name :: "node \<Rightarrow> path \<Rightarrow> path \<Rightarrow> path" where
  "free_name fs dest_dir svg_path =
     (let filename = path_name svg_path;
          dest_path = child dest_dir filename
      in probe fs dest_dir (path_stem svg_path) (path_suffix svg_path) dest_path 1)"

definition relocate :: "node \<Rightarrow> path \<Rightarrow> path \<Rightarrow> exn + (node \<times> string)" where
  "relocate fs dest_dir svg_path =
     (let final_dest_path = free_name fs dest_dir svg_path
      in case rename fs svg_path final_dest_path of
           Inl e \<Rightarrow> Inl e
         | Inr fs' \<Rightarrow> Inr (fs', path_name final_dest_path))"

fun move_all :: "node \<Rightarrow> path \<Rightarrow> path list \<Rightarrow> string list \<Rightarrow> string list outcome" where
  "move_all fs dest_dir [] moved_files = (fs, Inr moved_files)"
| "move_all fs dest_dir (svg_path # rest) moved_files =
     (case relocate fs dest_dir svg_path of
        Inl e \<Rightarrow> (fs, Inl e)
      | Inr (fs', final_name) \<Rightarrow> move_all fs' dest_dir rest (moved_files @ [final_name]))"

text \<open>Line 215 and lines 221 to 224 of \<^verbatim>\<open>handle_move_svg\<close>: where to search, and where to move
  to (the subfolder is created at once).\<close>

definition move_source :: "env \<Rightarrow> args \<Rightarrow> exn + path" where
  "move_source env a =
     (case a ''source'' of
        None \<Rightarrow> Inr (normalise [] (DOWNLOADS_DIR env))
      | Some v \<Rightarrow> Path_resolve env v)"

definition move_dest :: "env \<Rightarrow> args \<Rightarrow> node \<Rightarrow> exn + (path \<times> node)" where
  "move_dest env a fs =
     (case a ''subfolder'' of
        None \<Rightarrow> Inr (DOCUMENTS_DIR env, fs)
      | Some v \<Rightarrow>
          (case truediv (DOCUMENTS_DIR env) v of
             Inl e \<Rightarrow> Inl e
           | Inr dest_dir \<Rightarrow>
               (case mkdir fs dest_dir of Inl e \<Rightarrow> Inl e | Inr fs1 \<Rightarrow> Inr (dest_dir, fs1))))"

definition handle_move_svg :: "env \<Rightarrow> args \<Rightarrow> node \<Rightarrow> TextContent list outcome" where
  "handle_move_svg env a fs =
     (case move_source env a of
        Inl e \<Rightarrow> (fs, Inl e)
      | Inr source_dir \<Rightarrow>
          if \<not> path_exists fs source_dir
          then (fs, Inl (ValueError (''Source directory not found: '' @ str_path source_dir)))
          else
            (case move_dest env a fs of
               Inl e \<Rightarrow> (fs, Inl e)
             | Inr (dest_dir, fs1) \<Rightarrow>
                 let svg_files = find_files fs1 source_dir ''.svg'' in
                 if svg_files = []
                 then (fs1, Inr [TextContent ''text'' (''No SVG files found in '' @ str_path source_dir)])
                 else
                   (case move_all fs1 dest_dir svg_files [] of
                      (fs2, Inl e) \<Rightarrow> (fs2, Inl e)
                    | (fs2, Inr moved_files) \<Rightarrow>
                        (fs2, Inr [TextContent ''text''
                           (''Successfully moved '' @ str_nat (length moved_files)
                            @ '' SVG file(s) from '' @ str_path source_dir @ '' to '' @ str_path dest_dir
                            @ nl @ nl @ ''Moved files:'' @ nl @ join nl moved_files)]))))"

subsection \<open>Listing\<close>

text \<open>
  The comprehension of lines 267, 457 and 489: the entries of a listing that are regular
  files and whose suffix, lower-cased, is \<^verbatim>\<open>.zip\<close>.
\<close>

definition zip_files :: "(string \<times> node) list \<Rightarrow> (string \<times> stat_result option) list" where
  "zip_files es = filter (\<lambda>f. lower (name_suffix (fst f)) = ''.zip'') (file_entries es)"

text \<open>The dictionaries that the listing handlers collect.\<close>

record file_detail =
  d_name :: string
  d_size :: int
  d_modified :: int

record recent_detail = file_detail +
  d_extension :: string

text \<open>Lines 277 to 284: no \<^verbatim>\<open>try\<close> around \<^verbatim>\<open>file.stat()\<close>.\<close>

fun zip_details :: "path \<Rightarrow> (string \<times> stat_result option) list \<Rightarrow> exn + file_detail list" where
  "zip_details d [] = Inr []"
| "zip_details d (f # fs) =
     (case stat d f of
        Inl e \<Rightarrow> Inl e
      | Inr stats \<Rightarrow>
          (case zip_details d fs of
             Inl e \<Rightarrow> Inl e
           | Inr ds \<Rightarrow>
               Inr (\<lparr>d_name = fst f, d_size = st_size stats, d_modified = st_mtime stats\<rparr> # ds)))"

text \<open>Lines 399 to 413: a file whose \<^verbatim>\<open>stat()\<close> raises is passed over.\<close>

fun recent_details :: "path \<Rightarrow> (string \<times> stat_result option) list \<Rightarrow> recent_detail list" where
  "recent_details d [] = []"
| "recent_details d (f # fs) =
     (case stat d f of
        Inl e \<Rightarrow> recent_details d fs
      | Inr stats \<Rightarrow>
          \<lparr>d_name = fst f, d_size = st_size stats, d_modified = st_mtime stats,
           d_extension = lstrip_dot (lower (name_suffix (fst f)))\<rparr> # recent_details d fs)"

text \<open>
  \<^verbatim>\<open>xs.sort(key=..., reverse=True)\<close>: descending and stable (entries with equal keys keep
  their order), and \<^verbatim>\<open>xs[:limit]\<close> for an argument value.
\<close>

definition sort_desc :: "('a \<Rightarrow> int) \<Rightarrow> 'a list \<Rightarrow> 'a list" where
  "sort_desc key xs = rev (sort_key key (rev xs))"

definition slice_to :: "pyval \<Rightarrow> 'a list \<Rightarrow> exn + 'a list" where
  "slice_to limit xs =
     (let upto = (\<lambda>i. take (nat (if i < 0 then int (length xs) + i else i)) xs) in
      case limit of
        PNone \<Rightarrow> Inr xs
      | PInt i \<Rightarrow> Inr (upto i)
      | PBool b \<Rightarrow> Inr (upto (if b then 1 else 0))
      | _ \<Rightarrow> Inl (TypeError ''slice indices must be integers or None or have an __index__ method''))"

text \<open>
  \<^verbatim>\<open>f"{num / den:.2f}"\<close>: two decimals, ties to even. The quotient of the float division
  is exact for the divisors used here (powers of two) and sizes below \<open>2 ^ 53\<close>; sizes
  are never negative.
\<close>

definition format_2f :: "int \<Rightarrow> int \<Rightarrow> string" where
  "format_2f num den =
     (let n = 100 * num; t = n div den; r = n mod den;
          q = (if den < 2 * r \<or> (2 * r = den \<and> odd t) then t + 1 else t)
      in str_nat (nat (q div 100)) @ ''.''
         @ [digit_char (nat (q mod 100 div 10)), digit_char (nat (q mod 10))])"

text \<open>Line 294 to 296: one line of the listing.\<close>

definition zip_line :: "env \<Rightarrow> file_detail \<Rightarrow> string" where
  "zip_line env file =
     d_name file @ '' ('' @ format_2f (d_size file) (1024 * 1024) @ '' MB) - ''
     @ strftime env (d_modified file)"

definition handle_list_zip :: "env \<Rightarrow> args \<Rightarrow> node \<Rightarrow> TextContent list outcome" where
  "handle_list_zip env a fs =
     (let limit = get_default a ''limit'' (PInt 10) in
      if \<not> path_exists fs (DOWNLOADS_DIR env)
      then (fs, Inl (ValueError (''Downloads directory not found: '' @ str_path (DOWNLOADS_DIR env))))
      else
        (case iterdir fs (DOWNLOADS_DIR env) of
           Inl e \<Rightarrow> (fs, Inl e)
         | Inr es \<Rightarrow>
             if zip_files es = []
             then (fs, Inr [TextContent ''text'' (''No zip files found in '' @ str_path (DOWNLOADS_DIR env))])
             else
               (case zip_details (DOWNLOADS_DIR env) (zip_files es) of
                  Inl e \<Rightarrow> (fs, Inl e)
                | Inr file_details \<Rightarrow>
                    (case slice_to limit (sort_desc d_modified file_details) of
                       Inl e \<Rightarrow> (fs, Inl e)
                     | Inr limited_files \<Rightarrow>
                         let file_list = map (zip_line env) limited_files
                         in (fs, Inr [TextContent ''text''
                              (''Found '' @ str_nat (length (zip_files es))
                               @ '' zip file(s) in Downloads (showing ''
                               @ str_nat (length limited_files) @ '' most recent):'' @ nl @ nl
                               @ join nl file_list)])))))"

definition handle_list_recent_downloads :: "env \<Rightarrow> args \<Rightarrow> node \<Rightarrow> TextContent list outcome" where
  "handle_list_recent_downloads env a fs =
     (let limit = get_default a ''limit'' (PInt 10) in
      case lower_method (get_default a ''file_type'' (PStr [])) of
        Inl e \<Rightarrow> (fs, Inl e)
      | Inr file_type \<Rightarrow>
          if \<not> path_exists fs (DOWNLOADS_DIR env)
          then (fs, Inl (ValueError (''Downloads directory not found: '' @ str_path (DOWNLOADS_DIR env))))
          else
            (case iterdir fs (DOWNLOADS_DIR env) of
               Inl e \<Rightarrow> (fs, Inl e)
             | Inr es \<Rightarrow>
                 let all_details = recent_details (DOWNLOADS_DIR env) (file_entries es);
                     file_details =
                       (if file_type \<noteq> [] then filter (\<lambda>f. d_extension f = file_type) all_details
                        else all_details)
                 in
                 if file_details = []
                 then (fs, Inr [TextContent ''text''
                         (''No files''
                          @ (if file_type \<noteq> [] then '' of type '' @ [CHR 0x27] @ file_type @ [CHR 0x27] else [])
                          @ '' found in Downloads'')])
                 else
                   (case slice_to limit (sort_desc d_modified file_details) of
                      Inl e \<Rightarrow> (fs, Inl e)
                    | Inr limited_files \<Rightarrow>
                        let file_list =
                          map (\<lambda>(index, file).
                                 d_name file @ (if index = 0 then '' [LATEST]'' else []) @ nl
                                 @ ''  Size: ''
                                 @ (if 1024 * 1024 < d_size file
                                    then format_2f (d_size file) (1024 * 1024) @ '' MB''
                                    else format_2f (d_size file) 1024 @ '' KB'')
                                 @ '' | Downloaded: '' @ strftime env (d_modified file))
                              (enumerate (0::nat) limited_files)
                        in (fs, Inr [TextContent ''text''
                             (''Recent downloads''
                              @ (if file_type \<noteq> [] then '' (filtered to .'' @ file_type @ '' files)'' else [])
                              @ '' (showing '' @ str_nat (length limited_files) @ '' of ''
                              @ str_nat (length file_details) @ ''):'' @ nl @ nl
                              @ join (nl @ nl) file_list)]))))"

definition handle_list_svg :: "env \<Rightarrow> args \<Rightarrow> node \<Rightarrow> TextContent list outcome" where
  "handle_list_svg env a fs =
     (case (case a ''directory'' of
              None \<Rightarrow> Inr (normalise [] (DOWNLOADS_DIR env))
            | Some v \<Rightarrow> Path_resolve env v) of
        Inl e \<Rightarrow> (fs, Inl e)
      | Inr search_dir \<Rightarrow>
          if \<not> path_exists fs search_dir
          then (fs, Inl (ValueError (''Directory not found: '' @ str_path search_dir)))
          else
            let svg_files = find_files fs search_dir ''.svg'' in
            if svg_files = []
            then (fs, Inr [TextContent ''text'' (''No SVG files found in '' @ str_path search_dir)])
            else
              let relative_paths = map (\<lambda>f. join ''/'' (drop (length search_dir) f)) svg_files
              in (fs, Inr [TextContent ''text''
                   (''Found '' @ str_nat (length svg_files) @ '' SVG file(s) in ''
                    @ str_path search_dir @ '':'' @ nl @ nl @ join nl relative_paths)]))"

subsection \<open>Combined operations\<close>

definition handle_unzip_and_move_svgs :: "env \<Rightarrow> args \<Rightarrow> node \<Rightarrow> TextContent list outcome" where
  "handle_unzip_and_move_svgs env a fs =
     (let filename = get a ''filename''; destination_folder = get a ''destination_folder'' in
      if \<not> truthy filename then (fs, Inl (ValueError ''filename is required''))
      else if \<not> truthy destination_folder then (fs, Inl (ValueError ''destination_folder is required''))
      else
        (case truediv (DOWNLOADS_DIR env) filename of
           Inl e \<Rightarrow> (fs, Inl e)
         | Inr zip_path \<Rightarrow>
             if \<not> path_exists fs zip_path
             then (fs, Inl (ValueError (''Zip file not found: '' @ the_str filename)))
             else
               let extract_path = child (DOWNLOADS_DIR env) (path_stem zip_path) in
               (case extract_zip env fs zip_path extract_path of
                  (fs1, Inl e) \<Rightarrow> (fs1, Inl e)
                | (fs1, Inr namelist) \<Rightarrow>
                    let total_files = length namelist;
                        svg_files = find_files fs1 extract_path ''.svg''
                    in
                    if svg_files = []
                    then (fs1, Inr [TextContent ''text''
                            (''Successfully unzipped '' @ the_str filename
                             @ '' ('' @ str_nat total_files @ '' files) to '' @ str_path extract_path
                             @ nl @ nl @ ''But no SVG files were found in the archive.'')])
                    else
                      (case truediv (DOCUMENTS_DIR env) destination_folder of
                         Inl e \<Rightarrow> (fs1, Inl e)
                       | Inr dest_dir \<Rightarrow>
                           (case mkdir fs1 dest_dir of
                              Inl e \<Rightarrow> (fs1, Inl e)
                            | Inr fs2 \<Rightarrow>
                                (case move_all fs2 dest_dir svg_files [] of
                                   (fs3, Inl e) \<Rightarrow> (fs3, Inl e)
                                 | (fs3, Inr moved_files) \<Rightarrow>
                                     (fs3, Inr [TextContent ''text''
                                        (''Success! '' @ [CHR 0xF0, CHR 0x9F, CHR 0x8E, CHR 0x89] @ nl @ nl
                                         @ ''1. Unzipped '' @ the_str filename
                                         @ '' ('' @ str_nat total_files @ '' total files)'' @ nl
                                         @ ''2. Found '' @ str_nat (length svg_files) @ '' SVG file(s)'' @ nl
                                         @ ''3. Moved all SVGs to Documents'' @ [CHR 0x5C]
                                         @ the_str destination_folder
                                         @ nl @ nl @ ''Moved files:'' @ nl @ join nl moved_files)])))))))"

text \<open>
  \<^verbatim>\<open>max(zip_files, key=lambda f: f.stat().st_mtime)\<close>: the first item is the candidate,
  and a later item replaces it only if its key is greater.
\<close>

fun max_loop :: "path \<Rightarrow> string \<times> stat_result option \<Rightarrow> int \<Rightarrow> (string \<times> stat_result option) list
    \<Rightarrow> exn + (string \<times> stat_result option)" where
  "max_loop d maxitem maxval [] = Inr maxitem"
| "max_loop d maxitem maxval (f # fs) =
     (case stat d f of
        Inl e \<Rightarrow> Inl e
      | Inr stats \<Rightarrow>
          if maxval < st_mtime stats then max_loop d f (st_mtime stats) fs
          else max_loop d maxitem maxval fs)"

definition max_mtime :: "path \<Rightarrow> (string \<times> stat_result option) list
    \<Rightarrow> exn + (string \<times> stat_result option)" where
  "max_mtime d fs =
     (case fs of
        [] \<Rightarrow> Inl (ValueError ''max() arg is an empty sequence'')
      | f # rest \<Rightarrow> (case stat d f of Inl e \<Rightarrow> Inl e | Inr stats \<Rightarrow> max_loop d f (st_mtime stats) rest))"

text \<open>
  Lines 454 to 463 of \<^verbatim>\<open>handle_unzip_latest\<close>, which are lines 485 to 494 of
  \<^verbatim>\<open>handle_unzip_latest_and_move_svgs\<close>: the most recent zip file of Downloads.
\<close>

definition latest_zip :: "env \<Rightarrow> node \<Rightarrow> exn + (string \<times> stat_result option)" where
  "latest_zip env fs =
     (if \<not> path_exists fs (DOWNLOADS_DIR env)
      then Inl (ValueError (''Downloads directory not found: '' @ str_path (DOWNLOADS_DIR env)))
      else
        (case iterdir fs (DOWNLOADS_DIR env) of
           Inl e \<Rightarrow> Inl e
         | Inr es \<Rightarrow>
             if zip_files es = [] then Inl (ValueError ''No zip files found in Downloads'')
             else max_mtime (DOWNLOADS_DIR env) (zip_files es)))"

definition handle_unzip_latest :: "env \<Rightarrow> args \<Rightarrow> node \<Rightarrow> TextContent list outcome" where
  "handle_unzip_latest env a fs =
     (case latest_zip env fs of
        Inl e \<Rightarrow> (fs, Inl e)
      | Inr latest \<Rightarrow>
          (case handle_unzip env
                  [''filename'' \<mapsto> PStr (fst latest), ''destination'' \<mapsto> get a ''destination''] fs of
             (fs', Inl e) \<Rightarrow> (fs', Inl e)
           | (fs', Inr result) \<Rightarrow>
               (case result of
                  [] \<Rightarrow> (fs', Inl (IndexError ''list index out of range''))
                | r # rs \<Rightarrow>
                    (fs', Inr [TextContent ''text''
                       (replace (''Successfully unzipped '' @ fst latest)
                          (''Successfully unzipped the latest download: '' @ fst latest)
                          (content_text r))]))))"

definition handle_unzip_latest_and_move_svgs :: "env \<Rightarrow> args \<Rightarrow> node \<Rightarrow> TextContent list outcome" where
  "handle_unzip_latest_and_move_svgs env a fs =
     (let destination_folder = get a ''destination_folder'' in
      if \<not> truthy destination_folder then (fs, Inl (ValueError ''destination_folder is required''))
      else
        (case latest_zip env fs of
           Inl e \<Rightarrow> (fs, Inl e)
         | Inr latest \<Rightarrow>
             handle_unzip_and_move_svgs env
               [''filename'' \<mapsto> PStr (fst latest), ''destination_folder'' \<mapsto> destination_folder] fs))"

subsection \<open>The dispatch boundary\<close>

text \<open>
  \<open>dispatch\<close> is the body of the \<^verbatim>\<open>try\<close> of \<^verbatim>\<open>call_tool\<close>, and \<open>call_tool\<close> adds the
  \<^verbatim>\<open>except Exception\<close> clause: whatever was raised becomes a text.
\<close>

definition dispatch :: "env \<Rightarrow> string \<Rightarrow> args \<Rightarrow> node \<Rightarrow> TextContent list outcome" where
  "dispatch env name a fs =
     (if name = ''unzip_file'' then handle_unzip env a fs
      else if name = ''move_svg_files'' then handle_move_svg env a fs
      else if name = ''list_zip_files'' then handle_list_zip env a fs
      else if name = ''list_svg_files'' then handle_list_svg env a fs
      else if name = ''unzip_and_move_svgs'' then handle_unzip_and_move_svgs env a fs
      else if name = ''list_recent_downloads'' then handle_list_recent_downloads env a fs
      else if name = ''unzip_latest'' then handle_unzip_latest env a fs
      else if name = ''unzip_latest_and_move_svgs'' then handle_unzip_latest_and_move_svgs env a fs
      else (fs, Inl (ValueError (''Unknown tool: '' @ name))))"

definition call_tool :: "env \<Rightarrow> string \<Rightarrow> args \<Rightarrow> node \<Rightarrow> node \<times> TextContent list" where
  "call_tool env name a fs =
     (case dispatch env name a fs of
        (fs', Inr result) \<Rightarrow> (fs', result)
      | (fs', Inl e) \<Rightarrow> (fs', [TextContent ''text'' (''Error: '' @ str_exn e)]))"

section \<open>Example states\<close>

text \<open>An environment and small file systems on which the theorems below are run.\<close>

definition env0 :: env where
  "env0 = \<lparr>home = [''home'', ''u''], cwd = [''home'', ''u''], clock = 1000,
            strftime = (\<lambda>t. ''T'' @ str_nat (nat t))\<rparr>"

definition home_tree :: "(string \<times> node) list \<Rightarrow> (string \<times> node) list \<Rightarrow> node" where
  "home_tree downloads documents =
     Dir [(''home'', Dir [(''u'', Dir [(''Downloads'', Dir downloads), (''Documents'', Dir documents)])])]"

text \<open>The modification time of a listing entry whose metadata can be read.\<close>

definition mtime_of :: "string \<times> stat_result option \<Rightarrow> int" where
  "mtime_of f = (case snd f of None \<Rightarrow> 0 | Some s \<Rightarrow> st_mtime s)"

text \<open>Three archives, the two newest with the same modification time.\<close>

definition fs_ties :: node where
  "fs_ties = home_tree
     [(''a.zip'', File (Some 5) (Archive 100 [])),
      (''b.zip'', File (Some 9) (Archive 200 [])),
      (''notes.txt'', File (Some 12) (Bytes ''n'')),
      (''c.zip'', File (Some 9) (Archive 300 []))] []"

text \<open>A file in Downloads that is no archive.\<close>

definition fs_broken :: node where
  "fs_broken = home_tree [(''broken.zip'', File (Some 3) (Bytes ''not a zip''))] []"

text \<open>One archive with one member.\<close>

definition fs_one_zip :: node where
  "fs_one_zip = home_tree [(''a.zip'', File (Some 5) (Archive 120 [(''x.txt'', Bytes ''hello'')]))] []"

text \<open>Two archives, the first with unreadable metadata.\<close>

definition fs_unreadable :: node where
  "fs_unreadable = home_tree
     [(''gone.zip'', File None (Archive 10 [])),
      (''kept.zip'', File (Some 7) (Archive 2097152 []))] []"

text \<open>The dictionary that \<^verbatim>\<open>handle_list_zip\<close> builds from an entry whose metadata can be read.\<close>

definition detail_of :: "string \<times> stat_result option \<Rightarrow> file_detail" where
  "detail_of f = \<lparr>d_name = fst f, d_size = (case snd f of None \<Rightarrow> 0 | Some s \<Rightarrow> st_size s),
                  d_modified = mtime_of f\<rparr>"

text \<open>Three archives listed neither oldest nor newest first, and another file.\<close>

definition fs_three :: node where
  "fs_three = home_tree
     [(''mid.zip'', File (Some 20) (Archive 1048576 [])),
      (''new.ZIP'', File (Some 30) (Archive 524288 [])),
      (''readme.txt'', File (Some 40) (Bytes ''r'')),
      (''old.zip'', File (Some 10) (Archive 131072 []))] []"

text \<open>Files with and without the suffix at several depths, and a directory named like one.\<close>

definition fs_nested :: node where
  "fs_nested = home_tree
     [(''a.svg'', File (Some 1) (Bytes ''a'')),
      (''data.SVG'', File (Some 2) (Bytes ''b'')),
      (''report.txt'', File (Some 3) (Bytes ''c'')),
      (''icons'', Dir [(''c.svg'', File (Some 4) (Bytes ''d'')),
                       (''deep'', Dir [(''d.svg'', File (Some 5) (Bytes ''e''))])]),
      (''shapes.svg'', Dir [(''e.svg'', File (Some 6) (Bytes ''f''))])] []"

text \<open>Two files named \<^verbatim>\<open>icon.svg\<close> below Downloads, and one in Documents already.\<close>

definition fs_icons :: node where
  "fs_icons = home_tree
     [(''icon.svg'', File (Some 2) (Bytes ''first'')),
      (''sub'', Dir [(''icon.svg'', File (Some 3) (Bytes ''second''))])]
     [(''icon.svg'', File (Some 1) (Bytes ''kept''))]"

section \<open>Properties of the dispatch boundary\<close>

lemma unzip_single: "snd (handle_unzip env a fs) = Inr r \<Longrightarrow> \<exists>t. r = [TextContent ''text'' t]"
  by (auto simp: handle_unzip_def Let_def split: sum.splits prod.splits if_splits)

lemma move_single: "snd (handle_move_svg env a fs) = Inr r \<Longrightarrow> \<exists>t. r = [TextContent ''text'' t]"
  by (auto simp: handle_move_svg_def Let_def split: sum.splits prod.splits if_splits)

lemma list_zip_single: "snd (handle_list_zip env a fs) = Inr r \<Longrightarrow> \<exists>t. r = [TextContent ''text'' t]"
  by (auto simp: handle_list_zip_def Let_def split: sum.splits prod.splits if_splits)

lemma list_svg_single: "snd (handle_list_svg env a fs) = Inr r \<Longrightarrow> \<exists>t. r = [TextContent ''text'' t]"
  by (auto simp: handle_list_svg_def Let_def split: sum.splits prod.splits if_splits)

lemma unzip_move_single: "snd (handle_unzip_and_move_svgs env a fs) = Inr r \<Longrightarrow> \<exists>t. r = [TextContent ''text'' t]"
  by (auto simp: handle_unzip_and_move_svgs_def Let_def split: sum.splits prod.splits if_splits)

lemma list_recent_single: "snd (handle_list_recent_downloads env a fs) = Inr r \<Longrightarrow> \<exists>t. r = [TextContent ''text'' t]"
  by (auto simp: handle_list_recent_downloads_def Let_def split: sum.splits prod.splits if_splits)

lemma unzip_latest_single: "snd (handle_unzip_latest env a fs) = Inr r \<Longrightarrow> \<exists>t. r = [TextContent ''text'' t]"
  by (auto simp: handle_unzip_latest_def Let_def split: sum.splits prod.splits if_splits list.splits)

lemma unzip_latest_move_single: "snd (handle_unzip_latest_and_move_svgs env a fs) = Inr r \<Longrightarrow> \<exists>t. r = [TextContent ''text'' t]"
  using unzip_move_single
  by (auto simp: handle_unzip_latest_and_move_svgs_def Let_def split: sum.splits prod.splits if_splits list.splits)

lemma dispatch_single: "snd (dispatch env name a fs) = Inr r \<Longrightarrow> \<exists>t. r = [TextContent ''text'' t]"
  unfolding dispatch_def
  using unzip_single move_single list_zip_single list_svg_single unzip_move_single
    list_recent_single unzip_latest_single unzip_latest_move_single
  by (simp split: if_splits)

text \<open>
  Claim C8. Whatever the operation name and the argument bag, \<open>call_tool\<close> returns one
  text payload. When the handler (or the unknown-operation branch) raised \<open>e\<close>, the payload
  is \<^verbatim>\<open>Error: \<close> followed by \<^verbatim>\<open>str(e)\<close>, and the file system is as the failing handler
  left it; when the handler returned, its result is passed on; a name that is none of
  the eight operations gives \<^verbatim>\<open>Error: Unknown tool: \<close> and the name.
\<close>

theorem call_tool_total:
  "(\<exists>t. snd (call_tool env name a fs) = [TextContent ''text'' t]) \<and>
   (\<forall>e. snd (dispatch env name a fs) = Inl e \<longrightarrow>
        call_tool env name a fs = (fst (dispatch env name a fs), [TextContent ''text'' (''Error: '' @ str_exn e)])) \<and>
   (\<forall>r. snd (dispatch env name a fs) = Inr r \<longrightarrow>
        call_tool env name a fs = (fst (dispatch env name a fs), r)) \<and>
   (name \<notin> {''unzip_file'', ''move_svg_files'', ''list_zip_files'', ''list_svg_files'',
       ''unzip_and_move_svgs'', ''list_recent_downloads'', ''unzip_latest'', ''unzip_latest_and_move_svgs''} \<longrightarrow>
        call_tool env name a fs = (fs, [TextContent ''text'' (''Error: Unknown tool: '' @ name)]))"
proof -
  obtain fs' res where d: "dispatch env name a fs = (fs', res)"
    by (cases "dispatch env name a fs")
  have 1: "\<exists>t. snd (call_tool env name a fs) = [TextContent ''text'' t]"
  proof (cases res)
    case (Inl e)
    with d show ?thesis by (simp add: call_tool_def)
  next
    case (Inr r)
    with d dispatch_single [of env name a fs r] show ?thesis by (auto simp: call_tool_def)
  qed
  have 2: "\<forall>e. snd (dispatch env name a fs) = Inl e \<longrightarrow>
        call_tool env name a fs = (fst (dispatch env name a fs), [TextContent ''text'' (''Error: '' @ str_exn e)])"
    using d by (simp add: call_tool_def)
  have 3: "\<forall>r. snd (dispatch env name a fs) = Inr r \<longrightarrow>
        call_tool env name a fs = (fst (dispatch env name a fs), r)"
    using d by (simp add: call_tool_def)
  have 4: "name \<notin> {''unzip_file'', ''move_svg_files'', ''list_zip_files'', ''list_svg_files'',
       ''unzip_and_move_svgs'', ''list_recent_downloads'', ''unzip_latest'', ''unzip_latest_and_move_svgs''} \<longrightarrow>
        call_tool env name a fs = (fs, [TextContent ''text'' (''Error: Unknown tool: '' @ name)])"
    by (simp add: call_tool_def dispatch_def)
  from 1 2 3 4 show ?thesis by blast
qed

theorem call_tool_total_witness:
  "snd (dispatch env0 ''unzip_file'' Map.empty (Dir [])) = Inl (ValueError ''filename is required'') \<and>
   call_tool env0 ''unzip_file'' Map.empty (Dir [])
     = (Dir [], [TextContent ''text'' ''Error: filename is required'']) \<and>
   call_tool env0 ''format_disk'' Map.empty (Dir [])
     = (Dir [], [TextContent ''text'' ''Error: Unknown tool: format_disk''])"
proof -
  have d: "dispatch env0 ''unzip_file'' Map.empty (Dir []) = (Dir [], Inl (ValueError ''filename is required''))"
    by (simp add: dispatch_def handle_unzip_def get_def)
  have n: "''format_disk'' \<notin> {''unzip_file'', ''move_svg_files'', ''list_zip_files'', ''list_svg_files'',
       ''unzip_and_move_svgs'', ''list_recent_downloads'', ''unzip_latest'', ''unzip_latest_and_move_svgs''}"
    by simp
  from call_tool_total [of env0 "''unzip_file''" Map.empty "Dir []"] d
  have "call_tool env0 ''unzip_file'' Map.empty (Dir [])
     = (Dir [], [TextContent ''text'' ''Error: filename is required''])"
    by simp
  moreover from call_tool_total [of env0 "''format_disk''" Map.empty "Dir []"] n
  have "call_tool env0 ''format_disk'' Map.empty (Dir [])
     = (Dir [], [TextContent ''text'' ''Error: Unknown tool: format_disk''])"
    by simp
  ultimately show ?thesis using d by simp
qed

section \<open>Selecting the latest archive\<close>

lemma stat_readable: "snd f \<noteq> None \<Longrightarrow> stat d f = Inr (the (snd f))"
  by (auto simp: stat_def)

lemma max_loop_first:
  assumes "\<forall>f \<in> set fs. snd f \<noteq> None"
  shows "\<exists>r. max_loop d m mv fs = Inr r \<and>
           ((r = m \<and> (\<forall>x \<in> set fs. mtime_of x \<le> mv)) \<or>
            (\<exists>pre post. fs = pre @ r # post \<and> mv < mtime_of r \<and>
                (\<forall>x \<in> set pre. mtime_of x < mtime_of r) \<and> (\<forall>x \<in> set post. mtime_of x \<le> mtime_of r)))"
  using assms
proof (induction fs arbitrary: m mv)
  case Nil
  then show ?case by simp
next
  case (Cons f fs)
  from Cons.prems obtain s where s: "snd f = Some s" by auto
  then have st: "stat d f = Inr s" by (simp add: stat_def)
  from s have mt: "mtime_of f = st_mtime s" by (simp add: mtime_of_def)
  from Cons.prems have rest: "\<forall>f \<in> set fs. snd f \<noteq> None" by simp
  define m' where "m' = (if mv < st_mtime s then f else m)"
  define mv' where "mv' = (if mv < st_mtime s then st_mtime s else mv)"
  have step: "max_loop d m mv (f # fs) = max_loop d m' mv' fs"
    using st by (simp add: m'_def mv'_def)
  from Cons.IH [OF rest, of m' mv'] obtain r where
    r: "max_loop d m' mv' fs = Inr r" and
    c: "(r = m' \<and> (\<forall>x \<in> set fs. mtime_of x \<le> mv')) \<or>
          (\<exists>pre post. fs = pre @ r # post \<and> mv' < mtime_of r \<and>
              (\<forall>x \<in> set pre. mtime_of x < mtime_of r) \<and> (\<forall>x \<in> set post. mtime_of x \<le> mtime_of r))"
    by blast
  have "(r = m \<and> (\<forall>x \<in> set (f # fs). mtime_of x \<le> mv)) \<or>
          (\<exists>pre post. f # fs = pre @ r # post \<and> mv < mtime_of r \<and>
              (\<forall>x \<in> set pre. mtime_of x < mtime_of r) \<and> (\<forall>x \<in> set post. mtime_of x \<le> mtime_of r))"
    using c
  proof
    assume a: "r = m' \<and> (\<forall>x \<in> set fs. mtime_of x \<le> mv')"
    show ?thesis
    proof (cases "mv < st_mtime s")
      case True
      with a mt have "f # fs = [] @ r # fs" and "mv < mtime_of r"
        and "\<forall>x \<in> set []. mtime_of x < mtime_of r" and "\<forall>x \<in> set fs. mtime_of x \<le> mtime_of r"
        by (simp_all add: m'_def mv'_def)
      then show ?thesis by blast
    next
      case False
      with a mt show ?thesis by (simp add: m'_def mv'_def)
    qed
  next
    assume "\<exists>pre post. fs = pre @ r # post \<and> mv' < mtime_of r \<and>
              (\<forall>x \<in> set pre. mtime_of x < mtime_of r) \<and> (\<forall>x \<in> set post. mtime_of x \<le> mtime_of r)"
    then obtain pre post where p: "fs = pre @ r # post" "mv' < mtime_of r"
              "\<forall>x \<in> set pre. mtime_of x < mtime_of r" "\<forall>x \<in> set post. mtime_of x \<le> mtime_of r"
      by blast
    from p(2) have lt: "mv < mtime_of r" and ltf: "mtime_of f < mtime_of r"
      using mt by (auto simp: mv'_def split: if_splits)
    from p(1) have "f # fs = (f # pre) @ r # post" by simp
    moreover from p(3) ltf have "\<forall>x \<in> set (f # pre). mtime_of x < mtime_of r" by simp
    ultimately show ?thesis using lt p(4) by blast
  qed
  with r step show ?case by simp
qed

lemma max_mtime_first:
  assumes "zs \<noteq> []" and "\<forall>f \<in> set zs. snd f \<noteq> None"
  shows "\<exists>r pre post. max_mtime d zs = Inr r \<and> zs = pre @ r # post \<and>
           (\<forall>x \<in> set pre. mtime_of x < mtime_of r) \<and> (\<forall>x \<in> set post. mtime_of x \<le> mtime_of r)"
proof -
  from assms obtain f fs where zs: "zs = f # fs" by (cases zs) auto
  with assms obtain s where s: "snd f = Some s" by auto
  then have st: "stat d f = Inr s" by (simp add: stat_def)
  from s have mt: "mtime_of f = st_mtime s" by (simp add: mtime_of_def)
  from assms zs have rest: "\<forall>f \<in> set fs. snd f \<noteq> None" by simp
  from max_loop_first [OF rest, of d f "st_mtime s"] obtain r where
      r: "max_loop d f (st_mtime s) fs = Inr r" and
      c: "(r = f \<and> (\<forall>x \<in> set fs. mtime_of x \<le> st_mtime s)) \<or>
            (\<exists>pre post. fs = pre @ r # post \<and> st_mtime s < mtime_of r \<and>
                (\<forall>x \<in> set pre. mtime_of x < mtime_of r) \<and> (\<forall>x \<in> set post. mtime_of x \<le> mtime_of r))"
    by blast
  have m: "max_mtime d zs = Inr r"
    using zs st r by (simp add: max_mtime_def)
  from c show ?thesis
  proof
    assume "r = f \<and> (\<forall>x \<in> set fs. mtime_of x \<le> st_mtime s)"
    then have "zs = [] @ r # fs \<and> (\<forall>x \<in> set []. mtime_of x < mtime_of r) \<and> (\<forall>x \<in> set fs. mtime_of x \<le> mtime_of r)"
      using zs mt by simp
    then have "zs = [] @ r # fs" and "\<forall>x \<in> set []. mtime_of x < mtime_of r"
      and "\<forall>x \<in> set fs. mtime_of x \<le> mtime_of r"
      by simp_all
    with m show ?thesis by blast
  next
    assume "\<exists>pre post. fs = pre @ r # post \<and> st_mtime s < mtime_of r \<and>
                (\<forall>x \<in> set pre. mtime_of x < mtime_of r) \<and> (\<forall>x \<in> set post. mtime_of x \<le> mtime_of r)"
    then obtain pre post where p: "fs = pre @ r # post" "st_mtime s < mtime_of r"
                "\<forall>x \<in> set pre. mtime_of x < mtime_of r" "\<forall>x \<in> set post. mtime_of x \<le> mtime_of r"
      by blast
    then have "zs = (f # pre) @ r # post" and "\<forall>x \<in> set (f # pre). mtime_of x < mtime_of r"
      and "\<forall>x \<in> set post. mtime_of x \<le> mtime_of r"
      using zs mt by simp_all
    with m show ?thesis by blast
  qed
qed

lemma iterdir_exists: "iterdir fs p = Inr es \<Longrightarrow> path_exists fs p"
  by (auto simp: iterdir_def path_exists_def split: option.splits node.splits)

text \<open>
  Claim C5. The selection step that \<^verbatim>\<open>handle_unzip_latest\<close> and
  \<^verbatim>\<open>handle_unzip_latest_and_move_svgs\<close> share: with no zip file in Downloads it fails
  with \<^verbatim>\<open>No zip files found in Downloads\<close> and both handlers fail with it; with at least
  one (and every one's metadata readable) it returns an entry of the enumeration such
  that every entry before it is strictly older and every entry after it is not newer,
  that is the first one among those with the maximum modification time.
\<close>

theorem latest_zip_selection:
  assumes "iterdir fs (DOWNLOADS_DIR env) = Inr es"
  shows "(zip_files es = [] \<longrightarrow>
            latest_zip env fs = Inl (ValueError ''No zip files found in Downloads'') \<and>
            handle_unzip_latest env a fs = (fs, Inl (ValueError ''No zip files found in Downloads'')) \<and>
            (truthy (get a ''destination_folder'') \<longrightarrow>
               handle_unzip_latest_and_move_svgs env a fs
                 = (fs, Inl (ValueError ''No zip files found in Downloads'')))) \<and>
         (zip_files es \<noteq> [] \<and> (\<forall>f \<in> set (zip_files es). snd f \<noteq> None) \<longrightarrow>
            (\<exists>r pre post. latest_zip env fs = Inr r \<and> zip_files es = pre @ r # post \<and>
               (\<forall>x \<in> set pre. mtime_of x < mtime_of r) \<and>
               (\<forall>x \<in> set post. mtime_of x \<le> mtime_of r)))"
proof -
  from assms have ex: "path_exists fs (DOWNLOADS_DIR env)"
    by (rule iterdir_exists)
  have l: "latest_zip env fs =
      (if zip_files es = [] then Inl (ValueError ''No zip files found in Downloads'')
       else max_mtime (DOWNLOADS_DIR env) (zip_files es))"
    using ex assms by (simp add: latest_zip_def)
  have 1: "zip_files es = [] \<longrightarrow>
            latest_zip env fs = Inl (ValueError ''No zip files found in Downloads'') \<and>
            handle_unzip_latest env a fs = (fs, Inl (ValueError ''No zip files found in Downloads'')) \<and>
            (truthy (get a ''destination_folder'') \<longrightarrow>
               handle_unzip_latest_and_move_svgs env a fs
                 = (fs, Inl (ValueError ''No zip files found in Downloads'')))"
    using l by (simp add: handle_unzip_latest_def handle_unzip_latest_and_move_svgs_def)
  have 2: "zip_files es \<noteq> [] \<and> (\<forall>f \<in> set (zip_files es). snd f \<noteq> None) \<longrightarrow>
            (\<exists>r pre post. latest_zip env fs = Inr r \<and> zip_files es = pre @ r # post \<and>
               (\<forall>x \<in> set pre. mtime_of x < mtime_of r) \<and>
               (\<forall>x \<in> set post. mtime_of x \<le> mtime_of r))"
    using l max_mtime_first [of "zip_files es" "DOWNLOADS_DIR env"] by simp
  from 1 2 show ?thesis ..
qed

theorem latest_zip_selection_witness:
  "iterdir fs_ties (DOWNLOADS_DIR env0) = Inr
     [(''a.zip'', File (Some 5) (Archive 100 [])),
      (''b.zip'', File (Some 9) (Archive 200 [])),
      (''notes.txt'', File (Some 12) (Bytes ''n'')),
      (''c.zip'', File (Some 9) (Archive 300 []))] \<and>
   latest_zip env0 fs_ties = Inr (''b.zip'', Some \<lparr>st_size = 200, st_mtime = 9\<rparr>) \<and>
   iterdir (home_tree [] []) (DOWNLOADS_DIR env0) = Inr [] \<and>
   handle_unzip_latest env0 Map.empty (home_tree [] [])
     = (home_tree [] [], Inl (ValueError ''No zip files found in Downloads''))"
proof -
  let ?es = "[(''a.zip'', File (Some 5) (Archive 100 [])),
      (''b.zip'', File (Some 9) (Archive 200 [])),
      (''notes.txt'', File (Some 12) (Bytes ''n'')),
      (''c.zip'', File (Some 9) (Archive 300 []))]"
  let ?zs = "[(''a.zip'', Some \<lparr>st_size = 100, st_mtime = 5\<rparr>),
      (''b.zip'', Some \<lparr>st_size = 200, st_mtime = 9\<rparr>),
      (''c.zip'', Some \<lparr>st_size = 300, st_mtime = 9\<rparr>)]"
  have it: "iterdir fs_ties (DOWNLOADS_DIR env0) = Inr ?es"
    by code_simp
  have zs: "zip_files ?es = ?zs"
    by code_simp
  from latest_zip_selection [OF it, of Map.empty] zs
  obtain r pre post where r: "latest_zip env0 fs_ties = Inr r" and split: "?zs = pre @ r # post"
    and before: "\<forall>x \<in> set pre. mtime_of x < mtime_of r"
    and after: "\<forall>x \<in> set post. mtime_of x \<le> mtime_of r"
    by auto
  from split before after have "r = (''b.zip'', Some \<lparr>st_size = 200, st_mtime = 9\<rparr>)"
    by (auto simp: append_eq_Cons_conv Cons_eq_append_conv mtime_of_def)
  with r have b: "latest_zip env0 fs_ties = Inr (''b.zip'', Some \<lparr>st_size = 200, st_mtime = 9\<rparr>)"
    by simp
  have it0: "iterdir (home_tree [] []) (DOWNLOADS_DIR env0) = Inr []"
    by code_simp
  have z0: "zip_files [] = []"
    by code_simp
  from latest_zip_selection [OF it0, of Map.empty] z0
  have "handle_unzip_latest env0 Map.empty (home_tree [] [])
     = (home_tree [] [], Inl (ValueError ''No zip files found in Downloads''))"
    by simp
  with it b it0 show ?thesis by simp
qed

section \<open>Properties of the file system operations\<close>

lemma lookup_append:
  "lookup n (p @ q) = (case lookup n p of None \<Rightarrow> None | Some n' \<Rightarrow> lookup n' q)"
proof (induction n p rule: lookup.induct)
  case (1 n)
  show ?case by simp
next
  case (2 t c x p)
  show ?case by simp
next
  case (3 es x p)
  then show ?case by (simp split: option.split)
qed

lemma lookup_Dir_Cons:
  "lookup (Dir es) (x # p) = (case map_of es x of None \<Rightarrow> None | Some n \<Rightarrow> lookup n p)"
  by simp

lemma is_dir_root [simp]: "is_dir (Dir es) []"
  by (simp add: is_dir_def)

lemma is_file_File_Cons [simp]: "\<not> is_file (File t c) (x # p)"
  by (simp add: is_file_def)

lemma mkdirs_is_dir: "mkdirs n p = Some n' \<Longrightarrow> is_dir n' p"
proof (induction n p arbitrary: n' rule: mkdirs.induct)
  case (1 t c p)
  then show ?case by simp
next
  case (2 es)
  then show ?case by auto
next
  case (3 es x p)
  from "3.prems" obtain n'' where m: "mkdirs (case map_of es x of None \<Rightarrow> Dir [] | Some n \<Rightarrow> n) p = Some n''"
    and n': "n' = Dir (AList.update x n'' es)"
    by (auto split: option.splits)
  from "3.IH" [OF m] have "is_dir n'' p" .
  with n' show ?case
    by (simp add: is_dir_def update_conv')
qed

lemma mkdirs_is_file: "mkdirs n p = Some n' \<Longrightarrow> is_file n' q = is_file n q"
proof (induction n p arbitrary: n' q rule: mkdirs.induct)
  case (1 t c p)
  then show ?case by simp
next
  case (2 es)
  then show ?case by auto
next
  case (3 es x p)
  let ?c = "case map_of es x of None \<Rightarrow> Dir [] | Some n \<Rightarrow> n"
  from "3.prems" obtain n'' where m: "mkdirs ?c p = Some n''"
    and n': "n' = Dir (AList.update x n'' es)"
    by (auto split: option.splits)
  show ?case
  proof (cases q)
    case Nil
    with n' show ?thesis by (simp add: is_file_def)
  next
    case (Cons y q')
    show ?thesis
    proof (cases "y = x")
      case False
      with Cons n' show ?thesis
        by (simp add: is_file_def update_conv')
    next
      case True
      have "is_file n'' q' = is_file ?c q'"
        using "3.IH" [OF m] .
      moreover have "is_file ?c q' = is_file (Dir es) (x # q')"
        by (cases q') (auto simp: is_file_def split: option.splits)
      ultimately show ?thesis
        using True Cons n' by (simp add: is_file_def update_conv')
    qed
  qed
qed

lemma mkdir_is_dir: "mkdir fs p = Inr fs' \<Longrightarrow> is_dir fs' p"
  by (auto simp: mkdir_def split: option.splits dest: mkdirs_is_dir)

lemma mkdir_is_file: "mkdir fs p = Inr fs' \<Longrightarrow> is_file fs' q = is_file fs q"
  by (auto simp: mkdir_def split: option.splits dest: mkdirs_is_file)

lemma mkdir_OSError: "mkdir fs p = Inl e \<Longrightarrow> \<exists>k. e = OSError k p None"
  by (auto simp: mkdir_def split: option.splits)


lemma mkdirs_lookup_file: "mkdirs n p = Some n' \<Longrightarrow> is_file n q \<Longrightarrow> lookup n' q = lookup n q"
proof (induction n p arbitrary: n' q rule: mkdirs.induct)
  case (1 t c p)
  then show ?case by simp
next
  case (2 es)
  then show ?case by auto
next
  case (3 es x p)
  let ?c = "case map_of es x of None \<Rightarrow> Dir [] | Some n \<Rightarrow> n"
  from "3.prems" obtain n'' where m: "mkdirs ?c p = Some n''"
    and n': "n' = Dir (AList.update x n'' es)"
    by (auto split: option.splits)
  show ?case
  proof (cases q)
    case Nil
    with "3.prems" show ?thesis by (simp add: is_file_def)
  next
    case (Cons y q')
    show ?thesis
    proof (cases "y = x")
      case False
      with Cons n' show ?thesis
        by (simp add: update_conv')
    next
      case True
      with Cons "3.prems"(2) obtain c where c: "map_of es x = Some c" and f: "is_file c q'"
        by (auto simp: is_file_def split: option.splits)
      from c f "3.IH" [OF m, of q'] have "lookup n'' q' = lookup c q'"
        by simp
      with True Cons n' c show ?thesis
        by (simp add: update_conv')
    qed
  qed
qed

lemma mkdir_lookup_file: "mkdir fs p = Inr fs' \<Longrightarrow> is_file fs q \<Longrightarrow> lookup fs' q = lookup fs q"
  by (auto simp: mkdir_def split: option.splits dest: mkdirs_lookup_file)

lemma extract_member_OSError:
  "extract_member c fs t m = (fs', Some e) \<Longrightarrow> \<exists>k p q. e = OSError k p q"
  by (auto simp: extract_member_def Let_def makedirs_def os_mkdir_def write_file_def
      split: sum.splits option.splits if_splits)

lemma extractall_OSError:
  "extractall c fs t ms = (fs', Some e) \<Longrightarrow> \<exists>k p q. e = OSError k p q"
proof (induction ms arbitrary: fs)
  case Nil
  then show ?case by simp
next
  case (Cons m ms)
  obtain fs1 r where em: "extract_member c fs t m = (fs1, r)"
    by (cases "extract_member c fs t m")
  show ?case
  proof (cases r)
    case None
    with em Cons.prems have "extractall c fs1 t ms = (fs', Some e)" by simp
    then show ?thesis by (rule Cons.IH)
  next
    case (Some e')
    with em Cons.prems have "extract_member c fs t m = (fs', Some e)" by simp
    then show ?thesis by (rule extract_member_OSError)
  qed
qed

section \<open>Extraction\<close>

lemma extract_zip_BadZipFile:
  assumes "extract_zip env fs zp xp = (fs', Inl (BadZipFile m))"
  shows "mkdir fs xp = Inr fs'"
proof (cases "mkdir fs xp")
  case (Inl e)
  with assms mkdir_OSError [OF Inl] show ?thesis
    by (auto simp: extract_zip_def)
next
  case (Inr fs1)
  show ?thesis
  proof (cases "zipfile_open fs1 zp")
    case (Inl e)
    with Inr assms show ?thesis by (simp add: extract_zip_def)
  next
    case ms: (Inr ms)
    obtain fs2 r where ea: "extractall (clock env) fs1 xp ms = (fs2, r)"
      by (cases "extractall (clock env) fs1 xp ms")
    show ?thesis
    proof (cases r)
      case None
      with Inr ms ea assms show ?thesis by (simp add: extract_zip_def)
    next
      case (Some e)
      with ea extractall_OSError obtain k p q where "e = OSError k p q" by blast
      with Inr ms ea Some assms show ?thesis by (simp add: extract_zip_def)
    qed
  qed
qed

text \<open>
  Claim C10. \<^verbatim>\<open>handle_unzip\<close> creates the extraction directory (the destination joined
  with the archive's stem) before it opens the archive. So whenever it fails with
  BadZipFile, the file system it leaves is the one \<^verbatim>\<open>mkdir\<close> produced, in which the
  extraction directory exists; and on an existing file that is no archive it does fail
  so, once the directory could be created.
\<close>

theorem unzip_corrupt_leaves_directory:
  "(handle_unzip env a fs = (fs', Inl (BadZipFile m)) \<longrightarrow>
      (\<exists>zip_path dest_dir.
          truediv (DOWNLOADS_DIR env) (get a ''filename'') = Inr zip_path \<and>
          path_exists fs zip_path \<and>
          destination_dir env a = Inr dest_dir \<and>
          mkdir fs (child dest_dir (path_stem zip_path)) = Inr fs' \<and>
          is_dir fs' (child dest_dir (path_stem zip_path)))) \<and>
   (truthy (get a ''filename'') \<and>
    truediv (DOWNLOADS_DIR env) (get a ''filename'') = Inr zip_path \<and>
    lookup fs zip_path = Some (File t (Bytes b)) \<and>
    destination_dir env a = Inr dest_dir \<and>
    mkdir fs (child dest_dir (path_stem zip_path)) = Inr fs1 \<longrightarrow>
      handle_unzip env a fs = (fs1, Inl (BadZipFile ''File is not a zip file'')) \<and>
      is_dir fs1 (child dest_dir (path_stem zip_path)))"
proof (intro conjI impI)
  assume h: "handle_unzip env a fs = (fs', Inl (BadZipFile m))"
  from h have tr: "truthy (get a ''filename'')"
    by (auto simp: handle_unzip_def Let_def split: if_splits)
  from h tr obtain zp where zp: "truediv (DOWNLOADS_DIR env) (get a ''filename'') = Inr zp"
    by (cases "truediv (DOWNLOADS_DIR env) (get a ''filename'')")
       (auto simp: handle_unzip_def Let_def truediv_def split: pyval.splits)
  from h tr zp have ex: "path_exists fs zp"
    by (auto simp: handle_unzip_def Let_def split: if_splits)
  from h tr zp ex obtain dd where dd: "destination_dir env a = Inr dd"
    by (cases "destination_dir env a")
       (auto simp: handle_unzip_def Let_def destination_dir_def lower_method_def Path_resolve_def
          split: option.splits pyval.splits sum.splits if_splits)
  from h tr zp ex dd have "extract_zip env fs zp (child dd (path_stem zp)) = (fs', Inl (BadZipFile m))"
    by (auto simp: handle_unzip_def Let_def split: prod.splits sum.splits)
  then have mk: "mkdir fs (child dd (path_stem zp)) = Inr fs'"
    by (rule extract_zip_BadZipFile)
  then have "is_dir fs' (child dd (path_stem zp))"
    by (rule mkdir_is_dir)
  with zp ex dd mk
  show "\<exists>zip_path dest_dir.
          truediv (DOWNLOADS_DIR env) (get a ''filename'') = Inr zip_path \<and>
          path_exists fs zip_path \<and>
          destination_dir env a = Inr dest_dir \<and>
          mkdir fs (child dest_dir (path_stem zip_path)) = Inr fs' \<and>
          is_dir fs' (child dest_dir (path_stem zip_path))"
    by blast
next
  assume a: "truthy (get a ''filename'') \<and>
    truediv (DOWNLOADS_DIR env) (get a ''filename'') = Inr zip_path \<and>
    lookup fs zip_path = Some (File t (Bytes b)) \<and>
    destination_dir env a = Inr dest_dir \<and>
    mkdir fs (child dest_dir (path_stem zip_path)) = Inr fs1"
  then have f: "is_file fs zip_path" and ex: "path_exists fs zip_path"
    by (simp_all add: is_file_def path_exists_def)
  from a f have "lookup fs1 zip_path = Some (File t (Bytes b))"
    using mkdir_lookup_file [of fs "child dest_dir (path_stem zip_path)" fs1 zip_path] by simp
  then have "zipfile_open fs1 zip_path = Inl (BadZipFile ''File is not a zip file'')"
    by (simp add: zipfile_open_def)
  with a ex show "handle_unzip env a fs = (fs1, Inl (BadZipFile ''File is not a zip file''))"
    by (simp add: handle_unzip_def Let_def extract_zip_def)
next
  assume a: "truthy (get a ''filename'') \<and>
    truediv (DOWNLOADS_DIR env) (get a ''filename'') = Inr zip_path \<and>
    lookup fs zip_path = Some (File t (Bytes b)) \<and>
    destination_dir env a = Inr dest_dir \<and>
    mkdir fs (child dest_dir (path_stem zip_path)) = Inr fs1"
  then show "is_dir fs1 (child dest_dir (path_stem zip_path))"
    by (auto dest: mkdir_is_dir)
qed

theorem unzip_corrupt_leaves_directory_witness:
  "handle_unzip env0 [''filename'' \<mapsto> PStr ''broken.zip''] fs_broken
     = (home_tree [(''broken.zip'', File (Some 3) (Bytes ''not a zip'')), (''broken'', Dir [])] [],
        Inl (BadZipFile ''File is not a zip file'')) \<and>
   \<not> path_exists fs_broken [''home'', ''u'', ''Downloads'', ''broken''] \<and>
   is_dir (home_tree [(''broken.zip'', File (Some 3) (Bytes ''not a zip'')), (''broken'', Dir [])] [])
     [''home'', ''u'', ''Downloads'', ''broken'']"
proof -
  let ?a = "[''filename'' \<mapsto> PStr ''broken.zip'']"
  let ?after = "home_tree [(''broken.zip'', File (Some 3) (Bytes ''not a zip'')), (''broken'', Dir [])] []"
  have h: "handle_unzip env0 ?a fs_broken = (?after, Inl (BadZipFile ''File is not a zip file''))"
    by code_simp
  have before: "\<not> path_exists fs_broken [''home'', ''u'', ''Downloads'', ''broken'']"
    by code_simp
  have zp: "truediv (DOWNLOADS_DIR env0) (get ?a ''filename'') = Inr [''home'', ''u'', ''Downloads'', ''broken.zip'']"
    by code_simp
  have dd: "destination_dir env0 ?a = Inr [''home'', ''u'', ''Downloads'']"
    by code_simp
  have xp: "child [''home'', ''u'', ''Downloads''] (path_stem [''home'', ''u'', ''Downloads'', ''broken.zip''])
      = [''home'', ''u'', ''Downloads'', ''broken'']"
    by code_simp
  from unzip_corrupt_leaves_directory [of env0 ?a fs_broken ?after "''File is not a zip file''"] h zp dd xp
  have "is_dir ?after [''home'', ''u'', ''Downloads'', ''broken'']"
    by auto
  with h before show ?thesis by simp
qed

text \<open>
  Claim C2 fails on the code when the destination argument is absent.
  \<^verbatim>\<open>handle_unzip_latest\<close> passes \<^verbatim>\<open>args.get("destination")\<close>, that is \<^verbatim>\<open>None\<close>, under the key
  \<^verbatim>\<open>destination\<close>; \<^verbatim>\<open>handle_unzip\<close> finds the key present and calls \<^verbatim>\<open>.lower()\<close> on
  \<^verbatim>\<open>None\<close>. With one archive \<^verbatim>\<open>a.zip\<close> in Downloads, extract-archive on \<^verbatim>\<open>a.zip\<close> without a
  destination succeeds, extract-latest without a destination raises AttributeError and
  extracts nothing, and extract-latest with a destination does what extract-archive does.
\<close>

theorem unzip_latest_without_destination:
  "handle_unzip env0 [''filename'' \<mapsto> PStr ''a.zip''] fs_one_zip
     = (home_tree [(''a.zip'', File (Some 5) (Archive 120 [(''x.txt'', Bytes ''hello'')])),
                   (''a'', Dir [(''x.txt'', File (Some 1000) (Bytes ''hello''))])] [],
        Inr [TextContent ''text'' (''Successfully unzipped a.zip to /home/u/Downloads/a'' @ nl @ nl
              @ ''Extracted 1 files:'' @ nl @ ''x.txt'')]) \<and>
   handle_unzip_latest env0 Map.empty fs_one_zip
     = (fs_one_zip, Inl (AttributeError ([CHR 0x27] @ ''NoneType'' @ [CHR 0x27] @ '' object has no attribute ''
                            @ [CHR 0x27] @ ''lower'' @ [CHR 0x27]))) \<and>
   handle_unzip_latest env0 [''destination'' \<mapsto> PStr ''downloads''] fs_one_zip
     = (home_tree [(''a.zip'', File (Some 5) (Archive 120 [(''x.txt'', Bytes ''hello'')])),
                   (''a'', Dir [(''x.txt'', File (Some 1000) (Bytes ''hello''))])] [],
        Inr [TextContent ''text'' (''Successfully unzipped the latest download: a.zip to /home/u/Downloads/a'' @ nl @ nl
              @ ''Extracted 1 files:'' @ nl @ ''x.txt'')])"
  by code_simp

lemma unzip_latest_needs_destination:
  "a ''destination'' = None \<Longrightarrow> snd (handle_unzip_latest env a fs) \<noteq> Inr r"
  by (auto simp: handle_unzip_latest_def handle_unzip_def Let_def get_def destination_dir_def
      lower_method_def split: sum.splits prod.splits if_splits)

section \<open>Unreadable metadata\<close>

text \<open>
  Claim C3 fails on the code for list-archives. With an entry \<^verbatim>\<open>gone.zip\<close> whose \<^verbatim>\<open>stat()\<close>
  fails and a readable \<^verbatim>\<open>kept.zip\<close>, \<^verbatim>\<open>handle_list_zip\<close> raises the error of the failing
  \<^verbatim>\<open>stat()\<close> (the caller sees \<^verbatim>\<open>Error: ...\<close>), while \<^verbatim>\<open>handle_list_recent_downloads\<close> skips
  the entry and lists the other one.
\<close>

theorem list_zip_unreadable_entry:
  "handle_list_zip env0 Map.empty fs_unreadable
     = (fs_unreadable, Inl (OSError EACCES [''home'', ''u'', ''Downloads'', ''gone.zip''] None)) \<and>
   snd (call_tool env0 ''list_zip_files'' Map.empty fs_unreadable)
     = [TextContent ''text'' (''Error: [Errno 13] Permission denied: '' @ [CHR 0x27]
          @ ''/home/u/Downloads/gone.zip'' @ [CHR 0x27])] \<and> 
   handle_list_recent_downloads env0 Map.empty fs_unreadable
     = (fs_unreadable, Inr [TextContent ''text'' (''Recent downloads (showing 1 of 1):'' @ nl @ nl
          @ ''kept.zip [LATEST]'' @ nl @ ''  Size: 2.00 MB | Downloaded: T7'')])"
  by code_simp

lemma recent_details_skips:
  "recent_details d fs = recent_details d (filter (\<lambda>f. snd f \<noteq> None) fs)"
  by (induction fs) (auto simp: stat_def split: option.splits)

section \<open>Listing the archives\<close>

lemma zip_details_readable:
  "\<forall>f \<in> set zs. snd f \<noteq> None \<Longrightarrow> zip_details d zs = Inr (map detail_of zs)"
  by (induction zs) (auto simp: stat_def detail_of_def mtime_of_def split: option.splits)

lemma mset_sort_desc: "mset (sort_desc k xs) = mset xs"
  by (simp add: sort_desc_def)

lemma sorted_sort_desc: "sorted_wrt (\<lambda>x y. k y \<le> k x) (sort_desc k xs)"
proof -
  have "sorted_wrt (\<lambda>x y. k x \<le> k y) (sort_key k (rev xs))"
    using sorted_sort_key [of k "rev xs"] by (simp add: sorted_map)
  then show ?thesis
    by (simp add: sort_desc_def sorted_wrt_rev)
qed

lemma slice_to_nat: "slice_to (PInt (int n)) xs = Inr (take n xs)"
  by (simp add: slice_to_def)

lemma three_sorted_desc:
  fixes k :: "'a \<Rightarrow> int"
  assumes m: "mset xs = {#f1, f2, f3#}"
    and s: "sorted_wrt (\<lambda>x y. k y \<le> k x) xs"
    and lt: "k f1 < k f2" "k f2 < k f3"
  shows "xs = [f3, f2, f1]"
proof -
  from m have "size (mset xs) = 3" by simp
  then have "length xs = 3" by simp
  then obtain x y z where xs: "xs = [x, y, z]"
    by (auto simp: length_Suc_conv numeral_3_eq_3)
  from arg_cong [OF m, of set_mset] have st: "set xs = {f1, f2, f3}"
    by simp
  with xs have mem: "x \<in> {f1, f2, f3}" "y \<in> {f1, f2, f3}" "z \<in> {f1, f2, f3}"
    by auto
  from st xs have cnt: "f1 \<in> {x, y, z}" "f2 \<in> {x, y, z}" "f3 \<in> {x, y, z}"
    by auto
  from s xs have ord: "k y \<le> k x" "k z \<le> k y"
    by simp_all
  from cnt(3) ord have "k f3 \<le> k x" by auto
  with mem(1) lt have x: "x = f3" by auto
  from cnt(1) ord have "k z \<le> k f1" by auto
  with mem(3) lt have z: "z = f1" by auto
  from cnt(2) x z lt have y: "y = f2" by auto
  from x y z xs show ?thesis by simp
qed


text \<open>
  Claim C6. With Downloads readable, at least one zip file in it, every zip file's
  metadata readable, and the limit either absent (then 10) or a non-negative integer
  \<open>n\<close>: \<^verbatim>\<open>handle_list_zip\<close> reports the lines of \<open>shown\<close>, where \<open>shown @ rest\<close> is a
  rearrangement of the details of all zip files in descending order of modification
  time and \<open>shown\<close> has \<open>min n\<close> (number of zip files) entries. In particular, with limit
  2 and three zip files whose times are \<open>T1 < T2 < T3\<close>, in whatever order the directory
  lists them, it reports the file at \<open>T3\<close> and then the file at \<open>T2\<close>.
\<close>

theorem list_zip_sorted_truncated:
  assumes it: "iterdir fs (DOWNLOADS_DIR env) = Inr es"
    and ne: "zip_files es \<noteq> []"
    and rd: "\<forall>f \<in> set (zip_files es). snd f \<noteq> None"
    and lim: "(a ''limit'' = None \<and> n = 10) \<or> a ''limit'' = Some (PInt (int n))"
  shows "\<exists>shown rest.
      handle_list_zip env a fs =
        (fs, Inr [TextContent ''text''
            (''Found '' @ str_nat (length (zip_files es)) @ '' zip file(s) in Downloads (showing ''
             @ str_nat (length shown) @ '' most recent):'' @ nl @ nl
             @ join nl (map (zip_line env) shown))]) \<and>
      mset (shown @ rest) = mset (map detail_of (zip_files es)) \<and>
      sorted_wrt (\<lambda>x y. d_modified y \<le> d_modified x) (shown @ rest) \<and>
      length shown = min n (length (zip_files es)) \<and>
      (\<forall>f1 f2 f3. n = 2 \<and> mset (map detail_of (zip_files es)) = {#f1, f2, f3#} \<and>
           d_modified f1 < d_modified f2 \<and> d_modified f2 < d_modified f3 \<longrightarrow> shown = [f3, f2])"
proof -
  let ?ds = "map detail_of (zip_files es)"
  let ?srt = "sort_desc d_modified ?ds"
  have ex: "path_exists fs (DOWNLOADS_DIR env)"
    using it by (rule iterdir_exists)
  have zd: "zip_details (DOWNLOADS_DIR env) (zip_files es) = Inr ?ds"
    using rd by (rule zip_details_readable)
  have sl: "slice_to (get_default a ''limit'' (PInt 10)) ?srt = Inr (take n ?srt)"
    using lim slice_to_nat [of n ?srt] by (auto simp: get_default_def)
  have h: "handle_list_zip env a fs =
        (fs, Inr [TextContent ''text''
            (''Found '' @ str_nat (length (zip_files es)) @ '' zip file(s) in Downloads (showing ''
             @ str_nat (length (take n ?srt)) @ '' most recent):'' @ nl @ nl
             @ join nl (map (zip_line env) (take n ?srt)))])"
    using ex it ne zd sl by (simp add: handle_list_zip_def Let_def)
  have m: "mset (take n ?srt @ drop n ?srt) = mset ?ds"
    by (simp add: mset_sort_desc)
  have s: "sorted_wrt (\<lambda>x y. d_modified y \<le> d_modified x) (take n ?srt @ drop n ?srt)"
    by (simp add: sorted_sort_desc)
  have len: "length ?srt = length (zip_files es)"
    using arg_cong [OF mset_sort_desc [of d_modified ?ds], of size] by simp
  then have l: "length (take n ?srt) = min n (length (zip_files es))"
    by simp
  have three: "\<forall>f1 f2 f3. n = 2 \<and> mset ?ds = {#f1, f2, f3#} \<and>
           d_modified f1 < d_modified f2 \<and> d_modified f2 < d_modified f3 \<longrightarrow> take n ?srt = [f3, f2]"
  proof (intro allI impI)
    fix f1 f2 f3
    assume a: "n = 2 \<and> mset ?ds = {#f1, f2, f3#} \<and>
           d_modified f1 < d_modified f2 \<and> d_modified f2 < d_modified f3"
    then have "mset ?srt = {#f1, f2, f3#}"
      by (simp add: mset_sort_desc)
    then have "?srt = [f3, f2, f1]"
      using sorted_sort_desc [of d_modified ?ds] a by (intro three_sorted_desc) auto
    with a show "take n ?srt = [f3, f2]"
      by simp
  qed
  from h m s l three show ?thesis
    by blast
qed

theorem list_zip_sorted_truncated_witness:
  "iterdir fs_three (DOWNLOADS_DIR env0) = Inr
     [(''mid.zip'', File (Some 20) (Archive 1048576 [])),
      (''new.ZIP'', File (Some 30) (Archive 524288 [])),
      (''readme.txt'', File (Some 40) (Bytes ''r'')),
      (''old.zip'', File (Some 10) (Archive 131072 []))] \<and>
   handle_list_zip env0 [''limit'' \<mapsto> PInt 2] fs_three =
     (fs_three, Inr [TextContent ''text''
        (''Found 3 zip file(s) in Downloads (showing 2 most recent):'' @ nl @ nl
         @ ''new.ZIP (0.50 MB) - T30'' @ nl @ ''mid.zip (1.00 MB) - T20'')])"
proof -
  let ?es = "[(''mid.zip'', File (Some 20) (Archive 1048576 [])),
      (''new.ZIP'', File (Some 30) (Archive 524288 [])),
      (''readme.txt'', File (Some 40) (Bytes ''r'')),
      (''old.zip'', File (Some 10) (Archive 131072 []))]"
  let ?zs = "[(''mid.zip'', Some \<lparr>st_size = 1048576, st_mtime = 20\<rparr>),
      (''new.ZIP'', Some \<lparr>st_size = 524288, st_mtime = 30\<rparr>),
      (''old.zip'', Some \<lparr>st_size = 131072, st_mtime = 10\<rparr>)]"
  let ?f1 = "\<lparr>d_name = ''old.zip'', d_size = 131072, d_modified = 10\<rparr>"
  let ?f2 = "\<lparr>d_name = ''mid.zip'', d_size = 1048576, d_modified = 20\<rparr>"
  let ?f3 = "\<lparr>d_name = ''new.ZIP'', d_size = 524288, d_modified = 30\<rparr>"
  have it: "iterdir fs_three (DOWNLOADS_DIR env0) = Inr ?es"
    by code_simp
  have zs: "zip_files ?es = ?zs"
    by code_simp
  have ne: "zip_files ?es \<noteq> []"
    by (simp add: zs)
  have rd: "\<forall>f \<in> set (zip_files ?es). snd f \<noteq> None"
    by (simp add: zs)
  have lim: "([''limit'' \<mapsto> PInt 2] ''limit'' = None \<and> (2::nat) = 10) \<or>
      [''limit'' \<mapsto> PInt 2] ''limit'' = Some (PInt (int 2))"
    by simp
  have ds: "map detail_of ?zs = [?f2, ?f3, ?f1]"
    by (simp add: detail_of_def mtime_of_def)
  from list_zip_sorted_truncated [where a = "[''limit'' \<mapsto> PInt 2]" and n = 2, OF it ne rd lim]
  obtain shown rest where
    h: "handle_list_zip env0 [''limit'' \<mapsto> PInt 2] fs_three =
        (fs_three, Inr [TextContent ''text''
            (''Found '' @ str_nat (length (zip_files ?es)) @ '' zip file(s) in Downloads (showing ''
             @ str_nat (length shown) @ '' most recent):'' @ nl @ nl
             @ join nl (map (zip_line env0) shown))])"
    and three: "\<forall>f1 f2 f3. (2::nat) = 2 \<and> mset (map detail_of (zip_files ?es)) = {#f1, f2, f3#} \<and>
           d_modified f1 < d_modified f2 \<and> d_modified f2 < d_modified f3 \<longrightarrow> shown = [f3, f2]"
    by blast
  have ms: "mset (map detail_of (zip_files ?es)) = {#?f1, ?f2, ?f3#}"
    unfolding zs ds by (simp add: add_mset_commute)
  from three [rule_format, of ?f1 ?f2 ?f3] ms have shown: "shown = [?f3, ?f2]"
    by simp
  have n3: "str_nat (length ?zs) = ''3''" and n2: "str_nat (length [?f3, ?f2]) = ''2''"
    by code_simp+
  have l3: "zip_line env0 ?f3 = ''new.ZIP (0.50 MB) - T30''"
    by code_simp
  have l2: "zip_line env0 ?f2 = ''mid.zip (1.00 MB) - T20''"
    by code_simp
  from h shown zs n3 n2 l3 l2
  have "handle_list_zip env0 [''limit'' \<mapsto> PInt 2] fs_three =
     (fs_three, Inr [TextContent ''text''
        (''Found 3 zip file(s) in Downloads (showing 2 most recent):'' @ nl @ nl
         @ ''new.ZIP (0.50 MB) - T30'' @ nl @ ''mid.zip (1.00 MB) - T20'')])"
    by simp
  with it show ?thesis by simp
qed

section \<open>Finding files by suffix\<close>

lemma glob_literal:
  "CHR ''*'' \<notin> set S \<Longrightarrow> CHR ''?'' \<notin> set S \<Longrightarrow> glob_match S s = (s = S)"
proof (induction S arbitrary: s)
  case Nil
  show ?case by auto
next
  case (Cons c S)
  then show ?case by (cases s) auto
qed

lemma glob_star:
  "glob_match (CHR ''*'' # ps) s = (\<exists>k \<le> length s. glob_match ps (drop k s))"
proof -
  have "glob_match (CHR ''*'' # ps) s = list_ex (\<lambda>k. glob_match ps (drop k s)) [0..<Suc (length s)]"
    by (simp del: upt_Suc)
  also have "\<dots> = (\<exists>k \<in> set [0..<Suc (length s)]. glob_match ps (drop k s))"
    by (simp only: list_ex_iff)
  also have "\<dots> = (\<exists>k \<le> length s. glob_match ps (drop k s))"
    by (auto simp del: upt_Suc simp: less_Suc_eq_le)
  finally show ?thesis .
qed

lemma glob_suffix:
  assumes "CHR ''*'' \<notin> set S" and "CHR ''?'' \<notin> set S"
  shows "glob_match (CHR ''*'' # S) s = suffix S s"
proof -
  have "(\<exists>k \<le> length s. drop k s = S) = suffix S s"
  proof
    assume "\<exists>k \<le> length s. drop k s = S"
    then obtain k where "drop k s = S" by blast
    then have "s = take k s @ S" by (metis append_take_drop_id)
    then show "suffix S s" by (rule suffixI)
  next
    assume "suffix S s"
    then obtain zs where s: "s = zs @ S" by (auto simp: suffix_def)
    then have "length zs \<le> length s" and "drop (length zs) s = S" by simp_all
    then show "\<exists>k \<le> length s. drop k s = S" by blast
  qed
  moreover have "glob_match S t = (t = S)" for t
    using assms by (rule glob_literal)
  ultimately show ?thesis
    by (simp only: glob_star)
qed

lemma clearjunk_mem: "((x, n) \<in> set (AList.clearjunk es)) = (map_of es x = Some n)"
  using map_of_eq_Some_iff [of "AList.clearjunk es" x n]
  by (simp add: map_of_clearjunk)

lemma rglob_node_mem:
  "(q \<in> set (rglob_node m d n)) = (\<exists>p. q = d @ p \<and> p \<noteq> [] \<and> lookup n p \<noteq> None \<and> m (last p))"
proof (induction m d n arbitrary: q rule: rglob_node.induct)
  case (1 m d t c)
  have "lookup (File t c) p = None" if "p \<noteq> []" for p
    using that by (cases p) auto
  then show ?case by auto
next
  case (2 m d es)
  let ?cj = "AList.clearjunk es"
  have step: "(q \<in> set (rglob_node m d (Dir es))) =
     (\<exists>x n. map_of es x = Some n \<and>
        ((q = d @ [x] \<and> m x) \<or> (\<exists>p. q = d @ x # p \<and> p \<noteq> [] \<and> lookup n p \<noteq> None \<and> m (last p))))"
    (is "?L = ?R")
  proof
    assume ?L
    then consider e where "e \<in> set ?cj" "m (fst e)" "q = d @ [fst e]"
      | e where "e \<in> set ?cj" "q \<in> set (rglob_node m (d @ [fst e]) (snd e))"
      by auto
    then show ?R
    proof cases
      case 1
      then have "map_of es (fst e) = Some (snd e)"
        using clearjunk_mem [of "fst e" "snd e" es] by simp
      with 1 show ?thesis by blast
    next
      case 2
      then have me: "map_of es (fst e) = Some (snd e)"
        using clearjunk_mem [of "fst e" "snd e" es] by simp
      from 2 "2.IH" [of e q] obtain p where "q = (d @ [fst e]) @ p" "p \<noteq> []"
        "lookup (snd e) p \<noteq> None" "m (last p)"
        by blast
      with me show ?thesis by auto
    qed
  next
    assume ?R
    then obtain x n where xn: "map_of es x = Some n"
      and c: "(q = d @ [x] \<and> m x) \<or> (\<exists>p. q = d @ x # p \<and> p \<noteq> [] \<and> lookup n p \<noteq> None \<and> m (last p))"
      by blast
    from xn have e: "(x, n) \<in> set ?cj"
      by (simp add: clearjunk_mem)
    from c show ?L
    proof
      assume "q = d @ [x] \<and> m x"
      with e show ?L by force
    next
      assume "\<exists>p. q = d @ x # p \<and> p \<noteq> [] \<and> lookup n p \<noteq> None \<and> m (last p)"
      then obtain p where "q = (d @ [fst (x, n)]) @ p" "p \<noteq> []" "lookup (snd (x, n)) p \<noteq> None" "m (last p)"
        by auto
      with "2.IH" [OF e, of q] have "q \<in> set (rglob_node m (d @ [fst (x, n)]) (snd (x, n)))"
        by blast
      with e show ?L by force
    qed
  qed
  show ?case
  proof
    assume "q \<in> set (rglob_node m d (Dir es))"
    with step obtain x n where xn: "map_of es x = Some n"
      and c: "(q = d @ [x] \<and> m x) \<or> (\<exists>p. q = d @ x # p \<and> p \<noteq> [] \<and> lookup n p \<noteq> None \<and> m (last p))"
      by blast
    from c show "\<exists>p. q = d @ p \<and> p \<noteq> [] \<and> lookup (Dir es) p \<noteq> None \<and> m (last p)"
    proof
      assume "q = d @ [x] \<and> m x"
      with xn have "q = d @ [x] \<and> [x] \<noteq> [] \<and> lookup (Dir es) [x] \<noteq> None \<and> m (last [x])"
        by simp
      then show ?thesis by blast
    next
      assume "\<exists>p. q = d @ x # p \<and> p \<noteq> [] \<and> lookup n p \<noteq> None \<and> m (last p)"
      then obtain p where "q = d @ x # p" "p \<noteq> []" "lookup n p \<noteq> None" "m (last p)"
        by blast
      with xn have "q = d @ (x # p) \<and> x # p \<noteq> [] \<and> lookup (Dir es) (x # p) \<noteq> None \<and> m (last (x # p))"
        by simp
      then show ?thesis by blast
    qed
  next
    assume "\<exists>p. q = d @ p \<and> p \<noteq> [] \<and> lookup (Dir es) p \<noteq> None \<and> m (last p)"
    then obtain p where p: "q = d @ p" "p \<noteq> []" "lookup (Dir es) p \<noteq> None" "m (last p)"
      by blast
    then obtain x p' where xp: "p = x # p'" by (cases p) auto
    with p(3) obtain n where xn: "map_of es x = Some n" and l: "lookup n p' \<noteq> None"
      by (auto split: option.splits)
    have "(q = d @ [x] \<and> m x) \<or> (\<exists>p. q = d @ x # p \<and> p \<noteq> [] \<and> lookup n p \<noteq> None \<and> m (last p))"
    proof (cases "p' = []")
      case True
      with p xp show ?thesis by simp
    next
      case False
      with p xp l show ?thesis by auto
    qed
    with xn step show "q \<in> set (rglob_node m d (Dir es))" by blast
  qed
qed

lemma find_files_mem:
  assumes "CHR ''*'' \<notin> set S" and "CHR ''?'' \<notin> set S"
  shows "(q \<in> set (find_files fs D S)) = (\<exists>p. q = D @ p \<and> p \<noteq> [] \<and> is_file fs (D @ p) \<and> suffix S (last p))"
proof (cases "lookup fs D")
  case None
  then have "\<not> is_file fs (D @ p)" for p
    by (simp add: is_file_def lookup_append)
  with None show ?thesis
    by (auto simp: find_files_def rglob_def)
next
  case (Some n)
  have l: "lookup fs (D @ p) = lookup n p" for p
    using Some by (simp add: lookup_append)
  have f: "is_file fs (D @ p) \<Longrightarrow> lookup n p \<noteq> None" for p
    by (auto simp: is_file_def l split: option.splits)
  show ?thesis
    using Some f
    by (auto simp del: glob_match.simps simp: find_files_def rglob_def rglob_node_mem glob_suffix [OF assms] l)
qed


lemma distinct_children:
  assumes "distinct (map fst xs)"
    and "\<And>e. e \<in> set xs \<Longrightarrow> distinct (f e)"
    and "\<And>e q. e \<in> set xs \<Longrightarrow> q \<in> set (f e) \<Longrightarrow> \<exists>p. q = (d @ [fst e]) @ p"
  shows "distinct (concat (map f xs))"
  using assms
proof (induction xs)
  case Nil
  show ?case by simp
next
  case (Cons x xs)
  have "set (f x) \<inter> set (concat (map f xs)) = {}"
  proof (rule ccontr)
    assume "set (f x) \<inter> set (concat (map f xs)) \<noteq> {}"
    then obtain q y where q: "q \<in> set (f x)" and y: "y \<in> set xs" and q': "q \<in> set (f y)"
      by auto
    from Cons.prems(3) [of x q] q obtain p where "q = (d @ [fst x]) @ p" by auto
    moreover from Cons.prems(3) [of y q] y q' obtain p' where "q = (d @ [fst y]) @ p'" by auto
    ultimately have "fst x = fst y" by simp
    with y Cons.prems(1) show False by force
  qed
  moreover have "distinct (concat (map f xs))"
    using Cons.prems by (intro Cons.IH) auto
  moreover have "distinct (f x)"
    using Cons.prems(2) by simp
  ultimately show ?case by simp
qed

lemma distinct_rglob_node: "distinct (rglob_node m d n)"
proof (induction m d n rule: rglob_node.induct)
  case (1 m d t c)
  show ?case by simp
next
  case (2 m d es)
  let ?cj = "AList.clearjunk es"
  let ?A = "map (\<lambda>e. d @ [fst e]) (filter (\<lambda>e. m (fst e)) ?cj)"
  let ?B = "concat (map (\<lambda>e. rglob_node m (d @ [fst e]) (snd e)) ?cj)"
  have dk: "distinct (map fst ?cj)"
    by simp
  have "distinct (map fst (filter (\<lambda>e. m (fst e)) ?cj))"
    using dk by (rule distinct_map_filter)
  then have "distinct (map ((\<lambda>k. d @ [k]) \<circ> fst) (filter (\<lambda>e. m (fst e)) ?cj))"
    unfolding map_comp_map [symmetric] o_apply
    by (simp add: distinct_map inj_on_def)
  then have A: "distinct ?A"
    by (simp add: comp_def)
  have B: "distinct ?B"
  proof (rule distinct_children [OF dk])
    fix e
    assume "e \<in> set ?cj"
    then show "distinct (rglob_node m (d @ [fst e]) (snd e))"
      by (rule "2.IH")
  next
    fix e q
    assume "e \<in> set ?cj" and "q \<in> set (rglob_node m (d @ [fst e]) (snd e))"
    then show "\<exists>p. q = (d @ [fst e]) @ p"
      by (auto simp: rglob_node_mem)
  qed
  have "set ?A \<inter> set ?B = {}"
  proof (rule ccontr)
    assume "set ?A \<inter> set ?B \<noteq> {}"
    then obtain q where qa: "q \<in> set ?A" and qb: "q \<in> set ?B"
      by blast
    from qa obtain e where "q = d @ [fst e]"
      by auto
    moreover from qb obtain e' where "e' \<in> set ?cj"
      and "q \<in> set (rglob_node m (d @ [fst e']) (snd e'))"
      by auto
    ultimately obtain p where "d @ [fst e] = (d @ [fst e']) @ p" and "p \<noteq> []"
      by (auto simp: rglob_node_mem)
    then show False by simp
  qed
  with A B show ?case by simp
qed

lemma distinct_find_files: "distinct (find_files fs D S)"
  by (simp add: find_files_def rglob_def distinct_rglob_node split: option.split)


text \<open>
  Claim C4 as stated, for every suffix, fails: the suffix is pasted into a glob pattern,
  so a suffix with a wildcard matches names that do not end with it. Searching
  Downloads for the suffix \<^verbatim>\<open>?\<close> returns \<^verbatim>\<open>report.txt\<close>.
\<close>

theorem find_files_pattern_counterexample:
  "find_files (home_tree [(''report.txt'', File (Some 3) (Bytes ''c''))] []) [''home'', ''u'', ''Downloads''] ''?''
     = [[''home'', ''u'', ''Downloads'', ''report.txt'']] \<and>
   is_dir (home_tree [(''report.txt'', File (Some 3) (Bytes ''c''))] []) [''home'', ''u'', ''Downloads''] \<and>
   \<not> suffix ''?'' ''report.txt''"
  by code_simp

text \<open>
  Claim C4, amended. For a suffix \<open>S\<close> without \<^verbatim>\<open>*\<close>, \<^verbatim>\<open>?\<close>, \<^verbatim>\<open>[\<close> and \<^verbatim>\<open>/\<close> (such as \<^verbatim>\<open>.svg\<close>,
  the only suffix the handlers pass): a path is in \<open>find_files fs D S\<close> exactly if it is
  \<open>D\<close> extended by a non-empty relative path, is a regular file, and its last component
  ends with \<open>S\<close> (compared character by character); no path is returned twice; and when
  no file qualifies the result is the empty list.
\<close>

theorem find_files_exact:
  assumes "set S \<inter> {CHR ''*'', CHR ''?'', CHR ''['', CHR ''/''} = {}"
  shows "(\<forall>q. (q \<in> set (find_files fs D S)) =
              (\<exists>p. q = D @ p \<and> p \<noteq> [] \<and> is_file fs (D @ p) \<and> suffix S (last p))) \<and>
         distinct (find_files fs D S) \<and>
         ((\<forall>p. p \<noteq> [] \<and> is_file fs (D @ p) \<longrightarrow> \<not> suffix S (last p)) \<longrightarrow> find_files fs D S = [])"
proof -
  from assms have lit: "CHR ''*'' \<notin> set S" "CHR ''?'' \<notin> set S"
    by auto
  have m: "(q \<in> set (find_files fs D S)) =
      (\<exists>p. q = D @ p \<and> p \<noteq> [] \<and> is_file fs (D @ p) \<and> suffix S (last p))" for q
    using lit by (rule find_files_mem)
  have 2: "distinct (find_files fs D S)"
    by (rule distinct_find_files)
  have 3: "(\<forall>p. p \<noteq> [] \<and> is_file fs (D @ p) \<longrightarrow> \<not> suffix S (last p)) \<longrightarrow> find_files fs D S = []"
  proof
    assume "\<forall>p. p \<noteq> [] \<and> is_file fs (D @ p) \<longrightarrow> \<not> suffix S (last p)"
    with m have "q \<notin> set (find_files fs D S)" for q by blast
    then show "find_files fs D S = []" by (cases "find_files fs D S") auto
  qed
  from m 2 3 show ?thesis by blast
qed

theorem find_files_exact_witness:
  "set ''.svg'' \<inter> {CHR ''*'', CHR ''?'', CHR ''['', CHR ''/''} = {} \<and>
   find_files fs_nested [''home'', ''u'', ''Downloads''] ''.svg'' =
     [[''home'', ''u'', ''Downloads'', ''a.svg''],
      [''home'', ''u'', ''Downloads'', ''icons'', ''c.svg''],
      [''home'', ''u'', ''Downloads'', ''icons'', ''deep'', ''d.svg''],
      [''home'', ''u'', ''Downloads'', ''shapes.svg'', ''e.svg'']] \<and>
   [''home'', ''u'', ''Downloads''] @ [''icons'', ''deep'', ''d.svg'']
     \<in> set (find_files fs_nested [''home'', ''u'', ''Downloads''] ''.svg'') \<and>
   [''home'', ''u'', ''Downloads''] @ [''data.SVG'']
     \<notin> set (find_files fs_nested [''home'', ''u'', ''Downloads''] ''.svg'') \<and>
   find_files fs_nested [''home'', ''u'', ''Documents''] ''.svg'' = []"
proof -
  let ?D = "[''home'', ''u'', ''Downloads'']"
  have lit: "set ''.svg'' \<inter> {CHR ''*'', CHR ''?'', CHR ''['', CHR ''/''} = {}"
    by simp
  have t: "(q \<in> set (find_files fs_nested ?D ''.svg'')) =
      (\<exists>p. q = ?D @ p \<and> p \<noteq> [] \<and> is_file fs_nested (?D @ p) \<and> suffix ''.svg'' (last p))" for q
    using find_files_exact [OF lit, of fs_nested ?D] by (elim conjE allE)
  have ev: "find_files fs_nested ?D ''.svg'' =
     [[''home'', ''u'', ''Downloads'', ''a.svg''],
      [''home'', ''u'', ''Downloads'', ''icons'', ''c.svg''],
      [''home'', ''u'', ''Downloads'', ''icons'', ''deep'', ''d.svg''],
      [''home'', ''u'', ''Downloads'', ''shapes.svg'', ''e.svg'']]"
    by code_simp
  have f: "is_file fs_nested (?D @ [''icons'', ''deep'', ''d.svg''])"
    by code_simp
  have sf: "suffix ''.svg'' (last [''icons'', ''deep'', ''d.svg''])"
    by code_simp
  have ne: "[''icons'', ''deep'', ''d.svg''] \<noteq> []"
    by (rule list.distinct)
  have inn: "?D @ [''icons'', ''deep'', ''d.svg''] \<in> set (find_files fs_nested ?D ''.svg'')"
    unfolding t by (rule exI [of _ "[''icons'', ''deep'', ''d.svg'']"]) (intro conjI refl ne f sf)
  have ns: "\<not> suffix ''.svg'' (last [''data.SVG''])"
    by code_simp
  have out: "?D @ [''data.SVG''] \<notin> set (find_files fs_nested ?D ''.svg'')"
  proof
    assume "?D @ [''data.SVG''] \<in> set (find_files fs_nested ?D ''.svg'')"
    then obtain p where p: "?D @ [''data.SVG''] = ?D @ p" and sp: "suffix ''.svg'' (last p)"
      unfolding t by (elim exE conjE)
    from p have "p = [''data.SVG'']"
      by (simp only: same_append_eq)
    with sp have "suffix ''.svg'' (last [''data.SVG''])"
      by (rule subst [where P = "\<lambda>x. suffix ''.svg'' (last x)", rotated])
    with ns show False ..
  qed
  have e: "find_files fs_nested [''home'', ''u'', ''Documents''] ''.svg'' = []"
    by code_simp
  from lit ev inn out e show ?thesis
    by (intro conjI)
qed

section \<open>Relocation without overwriting\<close>

lemma lookup_prefix_exists:
  assumes "lookup n q \<noteq> None" and "prefix p q"
  shows "lookup n p \<noteq> None"
proof -
  from assms(2) obtain r where "q = p @ r" by (auto simp: prefix_def)
  with assms(1) show ?thesis by (auto simp: lookup_append split: option.splits)
qed

lemma lookup_file_prefix:
  assumes "is_file n p" and "prefix p q" and "lookup n q \<noteq> None"
  shows "q = p"
proof -
  from assms(2) obtain r where q: "q = p @ r" by (auto simp: prefix_def)
  from assms(1) obtain t c where "lookup n p = Some (File t c)"
    by (auto simp: is_file_def split: option.splits elim: node_is_file.elims)
  with assms(3) q have "lookup (File t c) r \<noteq> None" by (simp add: lookup_append)
  then have "r = []" by (cases r) auto
  with q show ?thesis by simp
qed

lemma put_lookup_same: "put n p x = Some n' \<Longrightarrow> lookup n' p = Some x"
proof (induction n p x arbitrary: n' rule: put.induct)
  case (1 fs n)
  then show ?case by simp
next
  case (2 t c x p n)
  then show ?case by simp
next
  case (3 es x n)
  then show ?case by (auto simp: update_conv')
next
  case (4 es x y p n)
  from "4.prems" obtain d d' where d: "map_of es x = Some d" and p: "put d (y # p) n = Some d'"
    and n': "n' = Dir (AList.update x d' es)"
    by (auto split: option.splits)
  from "4.IH" [OF d p] n' show ?case by (simp add: update_conv')
qed

lemma put_lookup_other:
  "put n p x = Some n' \<Longrightarrow> \<not> prefix p q \<Longrightarrow> \<not> prefix q p \<Longrightarrow> lookup n' q = lookup n q"
proof (induction n p x arbitrary: n' q rule: put.induct)
  case (1 fs n)
  then show ?case by simp
next
  case (2 t c x p n)
  then show ?case by simp
next
  case (3 es x n)
  from "3.prems" obtain z q' where q: "q = z # q'" by (cases q) auto
  with "3.prems" have "z \<noteq> x" by auto
  with q "3.prems" show ?case by (auto simp: update_conv')
next
  case (4 es x y p n)
  from "4.prems" obtain d d' where d: "map_of es x = Some d" and p: "put d (y # p) n = Some d'"
    and n': "n' = Dir (AList.update x d' es)"
    by (auto split: option.splits)
  from "4.prems" obtain z q' where q: "q = z # q'" by (cases q) auto
  show ?case
  proof (cases "z = x")
    case False
    with q n' show ?thesis by (simp add: update_conv')
  next
    case True
    with q "4.prems" have "\<not> prefix (y # p) q'" and "\<not> prefix q' (y # p)" by auto
    with "4.IH" [OF d p] have "lookup d' q' = lookup d q'" by blast
    with True q n' d show ?thesis by (simp add: update_conv')
  qed
qed

lemma put_prefix_dir:
  "put n p x = Some n' \<Longrightarrow> strict_prefix q p \<Longrightarrow> is_dir n q \<and> is_dir n' q"
proof (induction n p x arbitrary: n' q rule: put.induct)
  case (1 fs n)
  then show ?case by simp
next
  case (2 t c x p n)
  then show ?case by simp
next
  case (3 es x n)
  from "3.prems" have "q = []" by (cases q) (auto simp: strict_prefix_def)
  with "3.prems" show ?case by auto
next
  case (4 es x y p n)
  from "4.prems" obtain d d' where d: "map_of es x = Some d" and p: "put d (y # p) n = Some d'"
    and n': "n' = Dir (AList.update x d' es)"
    by (auto split: option.splits)
  show ?case
  proof (cases q)
    case Nil
    with n' show ?thesis by simp
  next
    case (Cons z q')
    with "4.prems" have z: "z = x" and sp: "strict_prefix q' (y # p)"
      by (auto simp: strict_prefix_def)
    from "4.IH" [OF d p sp] have "is_dir d q' \<and> is_dir d' q'" .
    with z Cons n' d show ?thesis by (simp add: is_dir_def update_conv')
  qed
qed

lemma remove_lookup_other:
  "remove n p = Some n' \<Longrightarrow> \<not> prefix p q \<Longrightarrow> \<not> prefix q p \<Longrightarrow> lookup n' q = lookup n q"
proof (induction n p arbitrary: n' q rule: remove.induct)
  case (1 fs)
  then show ?case by simp
next
  case (2 t c x p)
  then show ?case by simp
next
  case (3 es x)
  from "3.prems" obtain z q' where q: "q = z # q'" by (cases q) auto
  with "3.prems" have "z \<noteq> x" by auto
  with q "3.prems" show ?case by (auto simp: delete_conv' split: if_splits)
next
  case (4 es x y p)
  from "4.prems" obtain d d' where d: "map_of es x = Some d" and p: "remove d (y # p) = Some d'"
    and n': "n' = Dir (AList.update x d' es)"
    by (auto split: option.splits)
  from "4.prems" obtain z q' where q: "q = z # q'" by (cases q) auto
  show ?case
  proof (cases "z = x")
    case False
    with q n' show ?thesis by (simp add: update_conv')
  next
    case True
    with q "4.prems" have "\<not> prefix (y # p) q'" and "\<not> prefix q' (y # p)" by auto
    with "4.IH" [OF d p] have "lookup d' q' = lookup d q'" by blast
    with True q n' d show ?thesis by (simp add: update_conv')
  qed
qed

lemma remove_prefix_dir:
  "remove n p = Some n' \<Longrightarrow> strict_prefix q p \<Longrightarrow> is_dir n q \<and> is_dir n' q"
proof (induction n p arbitrary: n' q rule: remove.induct)
  case (1 fs)
  then show ?case by simp
next
  case (2 t c x p)
  then show ?case by simp
next
  case (3 es x)
  from "3.prems" have "q = []" by (cases q) (auto simp: strict_prefix_def)
  with "3.prems" show ?case by (auto split: if_splits)
next
  case (4 es x y p)
  from "4.prems" obtain d d' where d: "map_of es x = Some d" and p: "remove d (y # p) = Some d'"
    and n': "n' = Dir (AList.update x d' es)"
    by (auto split: option.splits)
  show ?case
  proof (cases q)
    case Nil
    with n' show ?thesis by simp
  next
    case (Cons z q')
    with "4.prems" have z: "z = x" and sp: "strict_prefix q' (y # p)"
      by (auto simp: strict_prefix_def)
    from "4.IH" [OF d p sp] have "is_dir d q' \<and> is_dir d' q'" .
    with z Cons n' d show ?thesis by (simp add: is_dir_def update_conv')
  qed
qed

lemma put_is_dir:
  assumes "put n p x = Some n'" and "is_dir n q" and "\<not> prefix p q"
  shows "is_dir n' q"
proof (cases "prefix q p")
  case True
  with assms(3) have "strict_prefix q p" by (auto simp: strict_prefix_def)
  with assms(1) show ?thesis by (auto dest: put_prefix_dir)
next
  case False
  with assms have "lookup n' q = lookup n q" by (intro put_lookup_other)
  with assms(2) show ?thesis by (simp add: is_dir_def)
qed

lemma remove_is_dir:
  assumes "remove n p = Some n'" and "is_dir n q" and "\<not> prefix p q"
  shows "is_dir n' q"
proof (cases "prefix q p")
  case True
  with assms(3) have "strict_prefix q p" by (auto simp: strict_prefix_def)
  with assms(1) show ?thesis by (auto dest: remove_prefix_dir)
next
  case False
  with assms have "lookup n' q = lookup n q" by (intro remove_lookup_other)
  with assms(2) show ?thesis by (simp add: is_dir_def)
qed

lemma probe_absent: "\<not> path_exists fs (probe fs d stem sfx final c)"
proof (induction fs d stem sfx final c rule: probe.induct)
  case (1 fs d stem sfx final c)
  show ?case
  proof (cases "path_exists fs final")
    case True
    with "1.IH" show ?thesis by (simp add: probe.simps [of fs d stem sfx final c])
  next
    case False
    then show ?thesis by (simp add: probe.simps [of fs d stem sfx final c])
  qed
qed

lemma probe_shape:
  "(\<not> path_exists fs final \<and> probe fs d stem sfx final c = final) \<or>
   (path_exists fs final \<and>
    (\<exists>k \<ge> c. probe fs d stem sfx final c = child d (stem @ ''_'' @ str_nat k @ sfx) \<and>
       (\<forall>j. c \<le> j \<and> j < k \<longrightarrow> path_exists fs (child d (stem @ ''_'' @ str_nat j @ sfx)))))"
proof (induction fs d stem sfx final c rule: probe.induct)
  case (1 fs d stem sfx final c)
  let ?cand = "\<lambda>k. child d (stem @ ''_'' @ str_nat k @ sfx)"
  show ?case
  proof (cases "path_exists fs final")
    case False
    then show ?thesis by (simp add: probe.simps [of fs d stem sfx final c])
  next
    case True
    then have step: "probe fs d stem sfx final c = probe fs d stem sfx (?cand c) (c + 1)"
      by (simp add: probe.simps [of fs d stem sfx final c])
    from "1.IH" [OF True]
    have "(\<not> path_exists fs (?cand c) \<and> probe fs d stem sfx (?cand c) (c + 1) = ?cand c) \<or>
      (path_exists fs (?cand c) \<and>
        (\<exists>k \<ge> c + 1. probe fs d stem sfx (?cand c) (c + 1) = ?cand k \<and>
          (\<forall>j. c + 1 \<le> j \<and> j < k \<longrightarrow> path_exists fs (?cand j))))" .
    then have "\<exists>k \<ge> c. probe fs d stem sfx final c = ?cand k \<and>
       (\<forall>j. c \<le> j \<and> j < k \<longrightarrow> path_exists fs (?cand j))"
    proof
      assume "\<not> path_exists fs (?cand c) \<and> probe fs d stem sfx (?cand c) (c + 1) = ?cand c"
      with step have "c \<le> c \<and> probe fs d stem sfx final c = ?cand c \<and>
          (\<forall>j. c \<le> j \<and> j < c \<longrightarrow> path_exists fs (?cand j))"
        by auto
      then show ?thesis by blast
    next
      assume a: "path_exists fs (?cand c) \<and>
        (\<exists>k \<ge> c + 1. probe fs d stem sfx (?cand c) (c + 1) = ?cand k \<and>
          (\<forall>j. c + 1 \<le> j \<and> j < k \<longrightarrow> path_exists fs (?cand j)))"
      then obtain k where k: "c + 1 \<le> k" "probe fs d stem sfx (?cand c) (c + 1) = ?cand k"
        "\<forall>j. c + 1 \<le> j \<and> j < k \<longrightarrow> path_exists fs (?cand j)"
        by blast
      have "path_exists fs (?cand j)" if "c \<le> j" "j < k" for j
      proof (cases "j = c")
        case True
        with a show ?thesis by simp
      next
        case False
        with that have "c + 1 \<le> j" by simp
        with k(3) that show ?thesis by blast
      qed
      with k step have "c \<le> k \<and> probe fs d stem sfx final c = ?cand k \<and>
          (\<forall>j. c \<le> j \<and> j < k \<longrightarrow> path_exists fs (?cand j))"
        by simp
      then show ?thesis by blast
    qed
    with True show ?thesis by blast
  qed
qed

lemma remove_lookup_same: "remove n p = Some n' \<Longrightarrow> lookup n' p = None"
proof (induction n p arbitrary: n' rule: remove.induct)
  case (1 fs)
  then show ?case by simp
next
  case (2 t c x p)
  then show ?case by simp
next
  case (3 es x)
  then show ?case by (auto simp: delete_conv' split: if_splits)
next
  case (4 es x y p)
  from "4.prems" obtain d d' where d: "map_of es x = Some d" and p: "remove d (y # p) = Some d'"
    and n': "n' = Dir (AList.update x d' es)"
    by (auto split: option.splits)
  from "4.IH" [OF d p] n' show ?case by (simp add: update_conv')
qed

lemma strict_prefix_butlast: "strict_prefix p q \<Longrightarrow> prefix p (butlast q)"
proof -
  assume "strict_prefix p q"
  then obtain r where "q = p @ r" and "r \<noteq> []"
    by (auto simp: strict_prefix_def prefix_def)
  then have "butlast q = p @ butlast r"
    by (simp add: butlast_append)
  then show ?thesis by simp
qed

lemma file_not_above:
  assumes "is_file fs q" and "lookup fs (butlast dst) = Some (Dir es)"
  shows "\<not> strict_prefix q dst"
proof
  assume "strict_prefix q dst"
  then have "prefix q (butlast dst)" by (rule strict_prefix_butlast)
  with assms have "butlast dst = q"
    using lookup_file_prefix [of fs q "butlast dst"] by simp
  with assms show False by (simp add: is_file_def)
qed

lemma rename_file_result:
  assumes r: "rename fs src dst = Inr fs'"
    and f: "is_file fs src"
    and a: "\<not> path_exists fs dst"
  shows "lookup fs' dst = lookup fs src \<and> lookup fs' src = None \<and>
         (\<forall>q. is_file fs q \<and> q \<noteq> src \<longrightarrow> lookup fs' q = lookup fs q)"
proof -
  from f obtain n where n: "lookup fs src = Some n" and nf: "node_is_file n"
    by (auto simp: is_file_def split: option.splits)
  from n a have ne: "src \<noteq> dst"
    by (auto simp: path_exists_def)
  from a have nd: "\<not> is_dir fs dst"
    by (auto simp: path_exists_def is_dir_def)
  from r n nf ne nd obtain fs1 es where par: "lookup fs (butlast dst) = Some (Dir es)"
    and rm: "remove fs src = Some fs1" and pt: "put fs1 dst n = Some fs'"
    by (auto simp: rename_def split: option.splits node.splits if_splits)
  have above: "\<not> prefix q dst" if "is_file fs q" for q
  proof
    assume "prefix q dst"
    moreover from that a have "q \<noteq> dst" by (auto simp: is_file_def path_exists_def split: option.splits)
    ultimately have "strict_prefix q dst" by (simp add: strict_prefix_def)
    with file_not_above [OF that par] show False ..
  qed
  have below: "\<not> prefix dst q" if "lookup fs q \<noteq> None" for q
    using a lookup_prefix_exists [OF that, of dst] by (auto simp: path_exists_def)
  have 1: "lookup fs' dst = lookup fs src"
    using pt n by (simp add: put_lookup_same)
  have "lookup fs' src = lookup fs1 src"
    using pt above [OF f] below [of src] n by (intro put_lookup_other) auto
  with rm have 2: "lookup fs' src = None"
    by (simp add: remove_lookup_same)
  have 3: "\<forall>q. is_file fs q \<and> q \<noteq> src \<longrightarrow> lookup fs' q = lookup fs q"
  proof (intro allI impI)
    fix q
    assume q: "is_file fs q \<and> q \<noteq> src"
    then have ex: "lookup fs q \<noteq> None" by (auto simp: is_file_def split: option.splits)
    have "\<not> prefix src q"
      using lookup_file_prefix [OF f _ ex] q by auto
    moreover have "\<not> prefix q src"
      using lookup_file_prefix [of fs q src] q n by auto
    ultimately have "lookup fs1 q = lookup fs q"
      using rm by (intro remove_lookup_other)
    moreover have "lookup fs' q = lookup fs1 q"
      using pt above [of q] below [OF ex] q by (intro put_lookup_other) auto
    ultimately show "lookup fs' q = lookup fs q" by simp
  qed
  from 1 2 3 show ?thesis by blast
qed


lemma icon_names:
  "path_name p = ''icon.svg'' \<Longrightarrow> path_stem p = ''icon'' \<and> path_suffix p = ''.svg''"
  by (simp add: path_stem_def path_suffix_def name_stem_def name_suffix_def)

lemma probe_step:
  "path_exists fs final \<Longrightarrow>
   probe fs d stem sfx final c = probe fs d stem sfx (child d (stem @ ''_'' @ str_nat c @ sfx)) (c + 1)"
  by (subst probe.simps) simp

lemma probe_stop: "\<not> path_exists fs final \<Longrightarrow> probe fs d stem sfx final c = final"
  by (subst probe.simps) simp

lemma icon_candidates:
  "child d ''icon.svg'' = d @ [''icon.svg''] \<and>
   child d (''icon'' @ ''_'' @ str_nat 1 @ ''.svg'') = d @ [''icon_1.svg''] \<and>
   child d (''icon'' @ ''_'' @ str_nat (1 + 1) @ ''.svg'') = d @ [''icon_2.svg'']"
proof -
  have "str_nat 1 = ''1''" and "str_nat (1 + 1) = ''2''"
    by code_simp+
  then show ?thesis by (simp add: child_def)
qed

text \<open>
  Claim C1. The name that the relocation loop of \<^verbatim>\<open>handle_move_svg\<close> and
  \<^verbatim>\<open>handle_unzip_and_move_svgs\<close> settles on does not exist in the file system at the
  moment of the rename. It is the source's own name in the destination if that is
  free; otherwise it is stem, underscore, counter and suffix for a counter \<open>k\<close> of at
  least 1 such that the candidates for all smaller counters exist. When the source is a
  regular file and the rename succeeds, the moved file is found under that name and
  every other regular file of the file system is where and what it was. With
  \<^verbatim>\<open>icon.svg\<close> in the destination, a source named \<^verbatim>\<open>icon.svg\<close> becomes \<^verbatim>\<open>icon_1.svg\<close>; with
  \<^verbatim>\<open>icon.svg\<close> and \<^verbatim>\<open>icon_1.svg\<close> there, it becomes \<^verbatim>\<open>icon_2.svg\<close>.
\<close>

theorem relocate_never_overwrites:
  "\<not> path_exists fs (free_name fs dest_dir svg_path) \<and>
   (\<not> path_exists fs (child dest_dir (path_name svg_path)) \<longrightarrow>
      free_name fs dest_dir svg_path = child dest_dir (path_name svg_path)) \<and>
   (path_exists fs (child dest_dir (path_name svg_path)) \<longrightarrow>
      (\<exists>k \<ge> 1.
         free_name fs dest_dir svg_path
           = child dest_dir (path_stem svg_path @ ''_'' @ str_nat k @ path_suffix svg_path) \<and>
         (\<forall>j. 1 \<le> j \<and> j < k \<longrightarrow>
            path_exists fs (child dest_dir (path_stem svg_path @ ''_'' @ str_nat j @ path_suffix svg_path))))) \<and>
   (is_file fs svg_path \<and> relocate fs dest_dir svg_path = Inr (fs', final_name) \<longrightarrow>
      final_name = path_name (free_name fs dest_dir svg_path) \<and>
      lookup fs' (free_name fs dest_dir svg_path) = lookup fs svg_path \<and>
      (\<forall>q. is_file fs q \<and> q \<noteq> svg_path \<longrightarrow> lookup fs' q = lookup fs q)) \<and>
   (path_name svg_path = ''icon.svg'' \<and> path_exists fs (dest_dir @ [''icon.svg'']) \<and>
    \<not> path_exists fs (dest_dir @ [''icon_1.svg'']) \<longrightarrow>
      free_name fs dest_dir svg_path = dest_dir @ [''icon_1.svg'']) \<and>
   (path_name svg_path = ''icon.svg'' \<and> path_exists fs (dest_dir @ [''icon.svg'']) \<and>
    path_exists fs (dest_dir @ [''icon_1.svg'']) \<and> \<not> path_exists fs (dest_dir @ [''icon_2.svg'']) \<longrightarrow>
      free_name fs dest_dir svg_path = dest_dir @ [''icon_2.svg''])"
proof -
  let ?stem = "path_stem svg_path" and ?sfx = "path_suffix svg_path"
  let ?first = "child dest_dir (path_name svg_path)"
  have fn: "free_name fs dest_dir svg_path = probe fs dest_dir ?stem ?sfx ?first 1"
    by (simp add: free_name_def)
  have 1: "\<not> path_exists fs (free_name fs dest_dir svg_path)"
    unfolding fn by (rule probe_absent)
  from probe_shape [of fs ?first dest_dir ?stem ?sfx 1]
  have 2: "\<not> path_exists fs ?first \<longrightarrow> free_name fs dest_dir svg_path = ?first"
    and 3: "path_exists fs ?first \<longrightarrow>
      (\<exists>k \<ge> 1. free_name fs dest_dir svg_path = child dest_dir (?stem @ ''_'' @ str_nat k @ ?sfx) \<and>
         (\<forall>j. 1 \<le> j \<and> j < k \<longrightarrow> path_exists fs (child dest_dir (?stem @ ''_'' @ str_nat j @ ?sfx))))"
    unfolding fn by blast+
  have 4: "is_file fs svg_path \<and> relocate fs dest_dir svg_path = Inr (fs', final_name) \<longrightarrow>
      final_name = path_name (free_name fs dest_dir svg_path) \<and>
      lookup fs' (free_name fs dest_dir svg_path) = lookup fs svg_path \<and>
      (\<forall>q. is_file fs q \<and> q \<noteq> svg_path \<longrightarrow> lookup fs' q = lookup fs q)"
  proof
    assume a: "is_file fs svg_path \<and> relocate fs dest_dir svg_path = Inr (fs', final_name)"
    then have r: "rename fs svg_path (free_name fs dest_dir svg_path) = Inr fs'"
      and n: "final_name = path_name (free_name fs dest_dir svg_path)"
      by (auto simp: relocate_def Let_def split: sum.splits)
    from rename_file_result [OF r _ 1] a n
    show "final_name = path_name (free_name fs dest_dir svg_path) \<and>
      lookup fs' (free_name fs dest_dir svg_path) = lookup fs svg_path \<and>
      (\<forall>q. is_file fs q \<and> q \<noteq> svg_path \<longrightarrow> lookup fs' q = lookup fs q)"
      by blast
  qed
  have 5: "path_name svg_path = ''icon.svg'' \<and> path_exists fs (dest_dir @ [''icon.svg'']) \<and>
    \<not> path_exists fs (dest_dir @ [''icon_1.svg'']) \<longrightarrow>
      free_name fs dest_dir svg_path = dest_dir @ [''icon_1.svg'']"
  proof
    assume a: "path_name svg_path = ''icon.svg'' \<and> path_exists fs (dest_dir @ [''icon.svg'']) \<and>
      \<not> path_exists fs (dest_dir @ [''icon_1.svg''])"
    then have st: "?stem = ''icon''" "?sfx = ''.svg''" "?first = dest_dir @ [''icon.svg'']"
      using icon_names [of svg_path] icon_candidates [of dest_dir] by simp_all
    have "free_name fs dest_dir svg_path
        = probe fs dest_dir ''icon'' ''.svg'' (dest_dir @ [''icon_1.svg'']) (1 + 1)"
      using a probe_step [of fs "dest_dir @ [''icon.svg'']" dest_dir "''icon''" "''.svg''" 1]
        icon_candidates [of dest_dir]
      unfolding fn st by simp
    also have "\<dots> = dest_dir @ [''icon_1.svg'']"
      using a by (intro probe_stop) simp
    finally show "free_name fs dest_dir svg_path = dest_dir @ [''icon_1.svg'']" .
  qed
  have 6: "path_name svg_path = ''icon.svg'' \<and> path_exists fs (dest_dir @ [''icon.svg'']) \<and>
    path_exists fs (dest_dir @ [''icon_1.svg'']) \<and> \<not> path_exists fs (dest_dir @ [''icon_2.svg'']) \<longrightarrow>
      free_name fs dest_dir svg_path = dest_dir @ [''icon_2.svg'']"
  proof
    assume a: "path_name svg_path = ''icon.svg'' \<and> path_exists fs (dest_dir @ [''icon.svg'']) \<and>
      path_exists fs (dest_dir @ [''icon_1.svg'']) \<and> \<not> path_exists fs (dest_dir @ [''icon_2.svg''])"
    then have st: "?stem = ''icon''" "?sfx = ''.svg''" "?first = dest_dir @ [''icon.svg'']"
      using icon_names [of svg_path] icon_candidates [of dest_dir] by simp_all
    have "free_name fs dest_dir svg_path
        = probe fs dest_dir ''icon'' ''.svg'' (dest_dir @ [''icon_1.svg'']) (1 + 1)"
      using a probe_step [of fs "dest_dir @ [''icon.svg'']" dest_dir "''icon''" "''.svg''" 1]
        icon_candidates [of dest_dir]
      unfolding fn st by simp
    also have "\<dots> = probe fs dest_dir ''icon'' ''.svg'' (dest_dir @ [''icon_2.svg'']) (1 + 1 + 1)"
      using a probe_step [of fs "dest_dir @ [''icon_1.svg'']" dest_dir "''icon''" "''.svg''" "1 + 1"]
        icon_candidates [of dest_dir]
      by simp
    also have "\<dots> = dest_dir @ [''icon_2.svg'']"
      using a by (intro probe_stop) simp
    finally show "free_name fs dest_dir svg_path = dest_dir @ [''icon_2.svg'']" .
  qed
  from 1 2 3 4 5 6 show ?thesis by blast
qed


theorem relocate_never_overwrites_witness:
  "handle_move_svg env0 Map.empty fs_icons =
     (home_tree [(''sub'', Dir [])]
        [(''icon.svg'', File (Some 1) (Bytes ''kept'')),
         (''icon_1.svg'', File (Some 2) (Bytes ''first'')),
         (''icon_2.svg'', File (Some 3) (Bytes ''second''))],
      Inr [TextContent ''text''
        (''Successfully moved 2 SVG file(s) from /home/u/Downloads to /home/u/Documents'' @ nl @ nl
         @ ''Moved files:'' @ nl @ ''icon_1.svg'' @ nl @ ''icon_2.svg'')]) \<and>
   path_exists fs_icons ([''home'', ''u'', ''Documents''] @ [''icon.svg'']) \<and>
   free_name fs_icons [''home'', ''u'', ''Documents''] [''home'', ''u'', ''Downloads'', ''icon.svg'']
     = [''home'', ''u'', ''Documents''] @ [''icon_1.svg''] \<and>
   is_file fs_icons [''home'', ''u'', ''Documents'', ''icon.svg''] \<and>
   (\<exists>fs1. relocate fs_icons [''home'', ''u'', ''Documents''] [''home'', ''u'', ''Downloads'', ''icon.svg'']
            = Inr (fs1, ''icon_1.svg'') \<and>
          lookup fs1 [''home'', ''u'', ''Documents'', ''icon.svg''] = Some (File (Some 1) (Bytes ''kept'')) \<and>
          lookup fs1 [''home'', ''u'', ''Documents'', ''icon_1.svg''] = Some (File (Some 2) (Bytes ''first'')))"
proof -
  let ?docs = "[''home'', ''u'', ''Documents'']"
  let ?src = "[''home'', ''u'', ''Downloads'', ''icon.svg'']"
  let ?fs1 = "home_tree [(''sub'', Dir [(''icon.svg'', File (Some 3) (Bytes ''second''))])]
        [(''icon.svg'', File (Some 1) (Bytes ''kept'')),
         (''icon_1.svg'', File (Some 2) (Bytes ''first''))]"
  have h: "handle_move_svg env0 Map.empty fs_icons =
     (home_tree [(''sub'', Dir [])]
        [(''icon.svg'', File (Some 1) (Bytes ''kept'')),
         (''icon_1.svg'', File (Some 2) (Bytes ''first'')),
         (''icon_2.svg'', File (Some 3) (Bytes ''second''))],
      Inr [TextContent ''text''
        (''Successfully moved 2 SVG file(s) from /home/u/Downloads to /home/u/Documents'' @ nl @ nl
         @ ''Moved files:'' @ nl @ ''icon_1.svg'' @ nl @ ''icon_2.svg'')])"
    by code_simp
  have n: "path_name ?src = ''icon.svg''"
    by code_simp
  have e0: "path_exists fs_icons (?docs @ [''icon.svg''])"
    by code_simp
  have e1: "\<not> path_exists fs_icons (?docs @ [''icon_1.svg''])"
    by code_simp
  note t = relocate_never_overwrites [of fs_icons ?docs ?src ?fs1 "''icon_1.svg''"]
  from t n e0 e1 have fr: "free_name fs_icons ?docs ?src = ?docs @ [''icon_1.svg'']"
    by blast
  have f: "is_file fs_icons ?src"
    by code_simp
  have k: "is_file fs_icons [''home'', ''u'', ''Documents'', ''icon.svg'']"
    by code_simp
  have r: "relocate fs_icons ?docs ?src = Inr (?fs1, ''icon_1.svg'')"
    by code_simp
  have kept: "lookup fs_icons [''home'', ''u'', ''Documents'', ''icon.svg''] = Some (File (Some 1) (Bytes ''kept''))"
    by code_simp
  have first: "lookup fs_icons ?src = Some (File (Some 2) (Bytes ''first''))"
    by code_simp
  have d: "[''home'', ''u'', ''Documents'', ''icon.svg''] \<noteq> ?src"
    by simp
  from t f r have un: "\<forall>q. is_file fs_icons q \<and> q \<noteq> ?src \<longrightarrow> lookup ?fs1 q = lookup fs_icons q"
    and mv: "lookup ?fs1 (free_name fs_icons ?docs ?src) = lookup fs_icons ?src"
    by blast+
  from un k d kept have 1: "lookup ?fs1 [''home'', ''u'', ''Documents'', ''icon.svg''] = Some (File (Some 1) (Bytes ''kept''))"
    by simp
  from mv fr first have 2: "lookup ?fs1 [''home'', ''u'', ''Documents'', ''icon_1.svg''] = Some (File (Some 2) (Bytes ''first''))"
    by simp
  from r 1 2 have "\<exists>fs1. relocate fs_icons ?docs ?src = Inr (fs1, ''icon_1.svg'') \<and>
          lookup fs1 [''home'', ''u'', ''Documents'', ''icon.svg''] = Some (File (Some 1) (Bytes ''kept'')) \<and>
          lookup fs1 [''home'', ''u'', ''Documents'', ''icon_1.svg''] = Some (File (Some 2) (Bytes ''first''))"
    by blast
  with h e0 fr k show ?thesis by (intro conjI)
qed

end
